theory Spec2Isabelle
  imports Complex_Main
begin

section \<open>Data model of the session engine (src/server/index.js)\<close>

text \<open>
  The server keeps one mutable room object per room identifier in the registry
  \<^verbatim>\<open>rooms\<close> (a JavaScript \<^verbatim>\<open>Map\<close>), and one \<^verbatim>\<open>socket.data\<close> object per connection.
  Handlers run to completion one at a time, so a handler is a function from the
  whole server state to the next one, together with the events it emits.
\<close>

datatype sym = SymX | SymO

text \<open>A board cell holds \<^verbatim>\<open>null\<close> (\<open>None\<close>) or one of the strings 'X', 'O'.\<close>

type_synonym cell = "sym option"

datatype mode = Pvp | BotMode

datatype difficulty = Easy | Hard

text \<open>
  A JavaScript string is a sequence of UTF-16 code units, here the list of their
  numbers (each below 65536). \<open>lit\<close> gives the code units of a literal of the source,
  whose characters are all ASCII. Strings that come from a payload (room identifiers,
  names) are of this type; socket identifiers and the messages of the server are
  generated by the server itself and stay HOL strings.
\<close>

type_synonym jstring = "nat list"

definition lit :: "string \<Rightarrow> jstring" where
  "lit s = map of_char s"

text \<open>
  A value of a request payload, as the transport delivers it (JSON): a string, a
  number, or anything else (undefined, null, a boolean, an object). A JSON number is
  a finite double, or an infinity when the literal overflows; JSON cannot carry NaN.
  Finite numbers are modelled by their rational value.
\<close>

datatype jsval = JString jstring | JNumber rat | JPosInfinity | JNegInfinity | JOther

text \<open>A seat occupant: \<^verbatim>\<open>{ id, name }\<close> for a human, \<^verbatim>\<open>{ id: 'BOT', name, isBot: true }\<close> for the bot.\<close>

record player =
  player_id :: string
  player_name :: jstring
  player_isBot :: bool

text \<open>
  The room object of \<^verbatim>\<open>createRoom\<close>. \<open>board\<close> holds the elements of the array
  \<^verbatim>\<open>room.board\<close>; \<open>boardProps\<close> holds the other own properties of that same array object
  (a write \<^verbatim>\<open>board[1.5] = 'X'\<close> creates the property "1.5" and leaves the elements alone).
\<close>

record room =
  room_id :: jstring
  board :: "cell list"
  boardProps :: "rat \<rightharpoonup> sym"
  turn :: sym
  players :: "sym \<Rightarrow> player option"
  sockets :: "string \<rightharpoonup> sym"
  winner :: "sym option"
  isDraw :: bool
  mode :: mode
  difficulty :: difficulty
  botSymbol :: "sym option"

text \<open>\<^verbatim>\<open>socket.data\<close>: every field is undefined (\<open>None\<close>) until a join succeeds.\<close>

record sockdata =
  sd_roomId :: "jstring option"
  sd_symbol :: "sym option"
  sd_name :: "jstring option"

text \<open>The snapshot of \<^verbatim>\<open>getState\<close>, pushed to the members of a room.\<close>

record game_state =
  gs_board :: "cell list"
  gs_turn :: sym
  gs_players :: "sym \<Rightarrow> player option"
  gs_winner :: "sym option"
  gs_isDraw :: bool
  gs_mode :: mode
  gs_difficulty :: difficulty

text \<open>
  What a handler sends: \<^verbatim>\<open>socket.emit('game:error', ...)\<close> to the requester alone, the
  acknowledgement callback of a join, and \<^verbatim>\<open>io.to(roomId).emit('game:state', ...)\<close> to
  every member of a room.
\<close>

datatype event =
    PrivateError string string
  | AckError string string
  | AckJoined string jstring sym mode difficulty
  | Broadcast jstring game_state

record server =
  rooms :: "jstring \<rightharpoonup> room"
  socks :: "string \<rightharpoonup> sockdata"

section \<open>Board functions\<close>

definition winLines :: "(nat \<times> nat \<times> nat) list" where
  "winLines = [(0, 1, 2), (3, 4, 5), (6, 7, 8), (0, 3, 6), (1, 4, 7), (2, 5, 8), (0, 4, 8), (2, 4, 6)]"

definition emptyBoard :: "cell list" where
  "emptyBoard = replicate 9 None"

definition normalizeMode :: "jsval \<Rightarrow> mode" where
  "normalizeMode v = (if v = JString (lit ''bot'') then BotMode else Pvp)"

definition normalizeDifficulty :: "jsval \<Rightarrow> difficulty" where
  "normalizeDifficulty v = (if v = JString (lit ''hard'') then Hard else Easy)"

definition normalizeSymbol :: "jsval \<Rightarrow> sym" where
  "normalizeSymbol v = (if v = JString (lit ''O'') then SymO else SymX)"

text \<open>Reading an array element: an index past the end reads undefined, which is falsy as null is.\<close>

definition cellAt :: "cell list \<Rightarrow> nat \<Rightarrow> cell" where
  "cellAt b i = (if i < length b then b ! i else None)"

text \<open>The loop of \<^verbatim>\<open>getWinner\<close> over the win-lines, in order.\<close>

fun firstLine :: "cell list \<Rightarrow> (nat \<times> nat \<times> nat) list \<Rightarrow> sym option" where
  "firstLine b [] = None"
| "firstLine b ((a, b', c) # ls) =
     (if cellAt b a \<noteq> None \<and> cellAt b a = cellAt b b' \<and> cellAt b a = cellAt b c
      then cellAt b a else firstLine b ls)"

definition getWinner :: "cell list \<Rightarrow> sym option" where
  "getWinner b = firstLine b winLines"

text \<open>\<^verbatim>\<open>board.every(Boolean)\<close>.\<close>

definition everyFilled :: "cell list \<Rightarrow> bool" where
  "everyFilled b = list_all (\<lambda>c. c \<noteq> None) b"

text \<open>\<^verbatim>\<open>getAvailableMoves\<close>: the indices of the falsy cells, ascending.\<close>

definition getAvailableMoves :: "cell list \<Rightarrow> nat list" where
  "getAvailableMoves b = filter (\<lambda>i. b ! i = None) [0..<length b]"

definition other :: "sym \<Rightarrow> sym" where
  "other s = (if s = SymX then SymO else SymX)"

section \<open>Rooms\<close>

definition resetRoom :: "room \<Rightarrow> room" where
  "resetRoom r = r\<lparr>board := emptyBoard, boardProps := Map.empty, turn := SymX, winner := None, isDraw := False\<rparr>"

definition createRoom :: "jstring \<Rightarrow> room" where
  "createRoom roomId =
     \<lparr>room_id = roomId, board = emptyBoard, boardProps = Map.empty, turn = SymX,
      players = (\<lambda>_. None), sockets = Map.empty, winner = None, isDraw = False,
      mode = Pvp, difficulty = Easy, botSymbol = None\<rparr>"

definition isBot :: "player option \<Rightarrow> bool" where
  "isBot p = (case p of None \<Rightarrow> False | Some q \<Rightarrow> player_id q = ''BOT'')"

definition hasHuman :: "room \<Rightarrow> bool" where
  "hasHuman r =
     (let xHuman = (players r SymX \<noteq> None \<and> \<not> isBot (players r SymX));
          oHuman = (players r SymO \<noteq> None \<and> \<not> isBot (players r SymO))
      in xHuman \<or> oHuman)"

definition difficultyName :: "difficulty \<Rightarrow> string" where
  "difficultyName d = (case d of Easy \<Rightarrow> ''easy'' | Hard \<Rightarrow> ''hard'')"

text \<open>
  \<^verbatim>\<open>ensureBot\<close> receives the difficulty the join handler has already normalised;
  normalising it again changes nothing.
\<close>

definition ensureBot :: "room \<Rightarrow> sym \<Rightarrow> difficulty \<Rightarrow> room" where
  "ensureBot r bs d =
     r\<lparr>mode := BotMode, botSymbol := Some bs, difficulty := d,
       players := (\<lambda>_. None)(bs := Some \<lparr>player_id = ''BOT'',
          player_name = lit (''Computer ('' @ difficultyName d @ '')''), player_isBot = True\<rparr>)\<rparr>"

definition ensurePvp :: "room \<Rightarrow> room" where
  "ensurePvp r =
     (let r1 = r\<lparr>mode := Pvp, botSymbol := None, difficulty := Easy\<rparr>;
          r2 = (if isBot (players r1 SymX) then r1\<lparr>players := (players r1)(SymX := None)\<rparr> else r1)
      in if isBot (players r2 SymO) then r2\<lparr>players := (players r2)(SymO := None)\<rparr> else r2)"

definition getState :: "room \<Rightarrow> game_state" where
  "getState r =
     \<lparr>gs_board = board r, gs_turn = turn r, gs_players = players r, gs_winner = winner r,
      gs_isDraw = isDraw r, gs_mode = mode r, gs_difficulty = difficulty r\<rparr>"

section \<open>The state mutator\<close>

text \<open>
  A number used as a property key of an array names an element when it is a
  non-negative integer, and an ordinary property otherwise.
\<close>

definition isArrayIndex :: "rat \<Rightarrow> bool" where
  "isArrayIndex q = (0 \<le> q \<and> q = of_int \<lfloor>q\<rfloor>)"

definition arrayIndex :: "rat \<Rightarrow> nat" where
  "arrayIndex q = nat \<lfloor>q\<rfloor>"

text \<open>
  \<^verbatim>\<open>board[i] = v\<close> on the elements: in range it overwrites; past the end JavaScript
  grows the array (never reached: the board has 9 cells and an accepted index is at
  most 8; the cells skipped over would be holes, modelled here as empty cells).
\<close>

definition writeCell :: "cell list \<Rightarrow> nat \<Rightarrow> cell \<Rightarrow> cell list" where
  "writeCell b i v = (if i < length b then b[i := v] else b @ replicate (i - length b) None @ [v])"

text \<open>\<^verbatim>\<open>room.board[index]\<close>, read and written, for a numeric index.\<close>

definition boardGet :: "room \<Rightarrow> rat \<Rightarrow> cell" where
  "boardGet r q = (if isArrayIndex q then cellAt (board r) (arrayIndex q) else boardProps r q)"

definition boardSet :: "room \<Rightarrow> rat \<Rightarrow> sym \<Rightarrow> room" where
  "boardSet r q s =
     (if isArrayIndex q then r\<lparr>board := writeCell (board r) (arrayIndex q) (Some s)\<rparr>
      else r\<lparr>boardProps := (boardProps r)(q \<mapsto> s)\<rparr>)"

definition applyMove :: "room \<Rightarrow> sym \<Rightarrow> rat \<Rightarrow> room" where
  "applyMove r s q =
     (let r1 = boardSet r q s;
          r2 = r1\<lparr>winner := getWinner (board r1)\<rparr>;
          r3 = r2\<lparr>isDraw := (winner r2 = None \<and> everyFilled (board r2))\<rparr>
      in if winner r3 = None \<and> \<not> isDraw r3
         then r3\<lparr>turn := (if turn r3 = SymX then SymO else SymX)\<rparr> else r3)"

section \<open>The bot decision engine\<close>

text \<open>The object minimax returns: \<^verbatim>\<open>{ score }\<close> at a terminal board, \<^verbatim>\<open>{ index, score }\<close> otherwise.\<close>

record mm_result =
  mm_score :: int
  mm_index :: "nat option"

text \<open>
  \<^verbatim>\<open>Array.prototype.reduce\<close> without an initial value: the first element starts the
  fold; on an empty array it throws a TypeError (\<open>None\<close>).
\<close>

fun reduce :: "('a \<Rightarrow> 'a \<Rightarrow> 'a) \<Rightarrow> 'a list \<Rightarrow> 'a option" where
  "reduce f [] = None"
| "reduce f (x # xs) = Some (foldl f x xs)"

definition emptyCount :: "cell list \<Rightarrow> nat" where
  "emptyCount b = length (filter (\<lambda>c. c = None) b)"

lemma emptyCount_update:
  "i < length b \<Longrightarrow> b ! i = None \<Longrightarrow> emptyCount (b[i := Some s]) < emptyCount b"
proof (induction b arbitrary: i)
  case Nil
  then show ?case by simp
next
  case (Cons c cs)
  show ?case
  proof (cases i)
    case 0
    with Cons.prems show ?thesis by (simp add: emptyCount_def)
  next
    case (Suc j)
    with Cons.prems have "emptyCount (cs[j := Some s]) < emptyCount cs"
      by (intro Cons.IH) simp_all
    with Suc show ?thesis by (simp add: emptyCount_def)
  qed
qed

lemma getAvailableMoves_iff:
  "i \<in> set (getAvailableMoves b) \<longleftrightarrow> i < length b \<and> b ! i = None"
  by (auto simp: getAvailableMoves_def)

text \<open>
  \<^verbatim>\<open>minimax(board, current, botSymbol, humanSymbol, depth)\<close>. The source writes
  \<^verbatim>\<open>current\<close> into the cell, recurses, and puts \<^verbatim>\<open>null\<close> back, so every child is
  searched on the board with that one cell written and the board is as before after
  the loop. An exception in a recursive call (\<open>None\<close>) ends the whole search.
\<close>

function minimax :: "cell list \<Rightarrow> sym \<Rightarrow> sym \<Rightarrow> sym \<Rightarrow> int \<Rightarrow> mm_result option" where
  "minimax b current botSym humanSym depth =
     (let w = getWinner b in
      if w = Some botSym then Some \<lparr>mm_score = 10 - depth, mm_index = None\<rparr>
      else if w = Some humanSym then Some \<lparr>mm_score = depth - 10, mm_index = None\<rparr>
      else if everyFilled b then Some \<lparr>mm_score = 0, mm_index = None\<rparr>
      else
        (case those (map (\<lambda>i. map_option (\<lambda>res. \<lparr>mm_score = mm_score res, mm_index = Some i\<rparr>)
                       (minimax (b[i := Some current])
                          (if current = botSym then humanSym else botSym) botSym humanSym (depth + 1)))
                     (getAvailableMoves b)) of
           None \<Rightarrow> None
         | Some moves \<Rightarrow>
             if current = botSym
             then reduce (\<lambda>best move. if mm_score move > mm_score best then move else best) moves
             else reduce (\<lambda>best move. if mm_score move < mm_score best then move else best) moves))"
  by pat_completeness auto
termination
  by (relation "measure (\<lambda>(b, _). emptyCount b)")
     (auto simp: getAvailableMoves_iff emptyCount_update)

declare minimax.simps [simp del]

text \<open>
  \<^verbatim>\<open>getBotMove\<close>. \<open>rnd\<close> stands for \<^verbatim>\<open>Math.floor(Math.random() * moves.length)\<close>, which
  is some index below \<^verbatim>\<open>moves.length\<close>. \<open>None\<close> is the \<^verbatim>\<open>null\<close> of the empty-board
  branch; it also stands for a search that returns no index (a terminal root) or finds
  no bot symbol, which the guards of \<^verbatim>\<open>maybeBotMove\<close> exclude.
\<close>

definition getBotMove :: "room \<Rightarrow> nat \<Rightarrow> nat option" where
  "getBotMove r rnd =
     (let moves = getAvailableMoves (board r) in
      if moves = [] then None
      else if difficulty r = Easy then Some (moves ! (rnd mod length moves))
      else
        (case botSymbol r of
           None \<Rightarrow> None
         | Some bs \<Rightarrow>
             (let humanSymbol = (if bs = SymX then SymO else SymX) in
              case minimax (board r) bs bs humanSymbol 0 of
                None \<Rightarrow> None
              | Some res \<Rightarrow> mm_index res)))"

text \<open>\<^verbatim>\<open>maybeBotMove\<close>: the room after it, what it broadcast, and its return value.\<close>

definition maybeBotMove :: "room \<Rightarrow> jstring \<Rightarrow> nat \<Rightarrow> room \<times> event list \<times> bool" where
  "maybeBotMove r roomId rnd =
     (case botSymbol r of
        None \<Rightarrow> (r, [], False)
      | Some bs \<Rightarrow>
          if mode r \<noteq> BotMode \<or> bs \<noteq> turn r then (r, [], False)
          else if winner r \<noteq> None \<or> isDraw r then (r, [], False)
          else
            (case getBotMove r rnd of
               None \<Rightarrow> (r, [], False)
             | Some botIndex \<Rightarrow>
                 (let r' = applyMove r bs (of_nat botIndex)
                  in (r', [Broadcast roomId (getState r')], True))))"

section \<open>Request handlers\<close>

text \<open>
  \<^verbatim>\<open>String.prototype.trim\<close> strips the white space and the line terminators of
  ECMAScript from both ends: tab, line feed, vertical tab, form feed, carriage return,
  space, no-break space (U+00A0), the byte order mark (U+FEFF), the line and paragraph
  separators (U+2028, U+2029) and the other space separators of Unicode (U+1680,
  U+2000 to U+200A, U+202F, U+205F, U+3000). All of them are single code units.
\<close>

definition isSpace :: "nat \<Rightarrow> bool" where
  "isSpace c = (c \<in> {0x09, 0x0A, 0x0B, 0x0C, 0x0D, 0x20, 0xA0, 0x1680, 0x2028, 0x2029, 0x202F,
                      0x205F, 0x3000, 0xFEFF} \<or> (0x2000 \<le> c \<and> c \<le> 0x200A))"

definition trim :: "jstring \<Rightarrow> jstring" where
  "trim s = rev (dropWhile isSpace (rev (dropWhile isSpace s)))"

text \<open>
  \<^verbatim>\<open>sanitize(value, fallback)\<close>. The fallback is a string or undefined (\<open>None\<close>), and so
  is the result. \<open>sanitizeStr\<close> is the call with a string fallback, whose result is a string.
\<close>

definition sanitize :: "jsval \<Rightarrow> jstring option \<Rightarrow> jstring option" where
  "sanitize v fallback =
     (case v of
        JString str \<Rightarrow> (let next = trim str in if next \<noteq> [] then Some next else fallback)
      | _ \<Rightarrow> fallback)"

definition sanitizeStr :: "jsval \<Rightarrow> jstring \<Rightarrow> jstring" where
  "sanitizeStr v fallback = (case sanitize v (Some fallback) of Some str \<Rightarrow> str | None \<Rightarrow> fallback)"

lemma lit_eq_iff [simp]: "lit a = lit b \<longleftrightarrow> a = b"
  by (simp add: lit_def inj_map_eq_map inj_def)

lemma lit_Nil [simp]: "lit s = [] \<longleftrightarrow> s = []" "[] = lit s \<longleftrightarrow> s = []"
  by (auto simp: lit_def)

record join_payload =
  jp_roomId :: jsval
  jp_name :: jsval
  jp_mode :: jsval
  jp_difficulty :: jsval
  jp_symbol :: jsval

record move_payload =
  mp_roomId :: jsval
  mp_index :: jsval

text \<open>\<^verbatim>\<open>getRoom\<close>: the room of the registry, created and stored on first reference.\<close>

definition getRoom :: "server \<Rightarrow> jstring \<Rightarrow> room \<times> server" where
  "getRoom s roomId =
     (case rooms s roomId of
        Some r \<Rightarrow> (r, s)
      | None \<Rightarrow> (createRoom roomId, s\<lparr>rooms := (rooms s)(roomId \<mapsto> createRoom roomId)\<rparr>))"

text \<open>\<^verbatim>\<open>rooms.get(roomId)\<close> for a key that may be undefined: no room is stored under undefined.\<close>

definition roomsGet :: "server \<Rightarrow> jstring option \<Rightarrow> room option" where
  "roomsGet s k = (case k of None \<Rightarrow> None | Some roomId \<Rightarrow> rooms s roomId)"

definition emitState :: "server \<Rightarrow> jstring \<Rightarrow> event list" where
  "emitState s roomId = (case rooms s roomId of Some r \<Rightarrow> [Broadcast roomId (getState r)] | None \<Rightarrow> [])"

text \<open>\<^verbatim>\<open>socket.data\<close> of a connection; a connection that never joined has the empty object.\<close>

definition noData :: sockdata where
  "noData = \<lparr>sd_roomId = None, sd_symbol = None, sd_name = None\<rparr>"

definition socketData :: "server \<Rightarrow> string \<Rightarrow> sockdata" where
  "socketData s sid = (case socks s sid of Some d \<Rightarrow> d | None \<Rightarrow> noData)"

text \<open>
  A rejected join: the private error event, and the acknowledgement when the client
  passed a callback (\<open>ack\<close>).
\<close>

definition rejectJoin :: "string \<Rightarrow> bool \<Rightarrow> string \<Rightarrow> event list" where
  "rejectJoin sid ack msg = PrivateError sid msg # (if ack then [AckError sid msg] else [])"

text \<open>The two writes that seat a connection: \<^verbatim>\<open>room.players[symbol]\<close> and \<^verbatim>\<open>room.sockets\<close>.\<close>

definition takeSeat :: "room \<Rightarrow> sym \<Rightarrow> string \<Rightarrow> jstring \<Rightarrow> room" where
  "takeSeat r symbol sid name =
     r\<lparr>players := (players r)(symbol := Some \<lparr>player_id = sid, player_name = name, player_isBot = False\<rparr>),
       sockets := (sockets r)(sid \<mapsto> symbol)\<rparr>"

definition bindSocket :: "server \<Rightarrow> string \<Rightarrow> jstring \<Rightarrow> sym \<Rightarrow> jstring \<Rightarrow> server" where
  "bindSocket s sid roomId symbol name =
     s\<lparr>socks := (socks s)(sid \<mapsto> \<lparr>sd_roomId = Some roomId, sd_symbol = Some symbol, sd_name = Some name\<rparr>)\<rparr>"

definition putRoom :: "server \<Rightarrow> jstring \<Rightarrow> room \<Rightarrow> server" where
  "putRoom s roomId r = s\<lparr>rooms := (rooms s)(roomId \<mapsto> r)\<rparr>"

text \<open>The handler of \<^verbatim>\<open>game:join\<close>.\<close>

definition joinHandler :: "server \<Rightarrow> string \<Rightarrow> join_payload \<Rightarrow> bool \<Rightarrow> nat \<Rightarrow> server \<times> event list" where
  "joinHandler s sid payload ack rnd =
     (let roomId = sanitizeStr (jp_roomId payload) (lit ''lobby'');
          name = sanitizeStr (jp_name payload) [];
          md = normalizeMode (jp_mode payload);
          diff = normalizeDifficulty (jp_difficulty payload);
          preferredSymbol = normalizeSymbol (jp_symbol payload)
      in if name = [] then (s, rejectJoin sid ack ''Name is required.'')
         else
           (let (room0, s1) = getRoom s roomId;
                humanPresent = hasHuman room0
            in if humanPresent \<and> mode room0 \<noteq> md
               then (s1, rejectJoin sid ack ''Room mode does not match.'')
               else
                 (let room1 =
                        (if \<not> humanPresent
                         then (if md = BotMode
                               then ensureBot (resetRoom room0)
                                      (if preferredSymbol = SymX then SymO else SymX) diff
                               else ensurePvp (resetRoom room0))
                         else room0)
                  in if md = BotMode
                     then
                       (if humanPresent then (s1, rejectJoin sid ack ''Room is full.'')
                        else
                          (let room2 = takeSeat room1 preferredSymbol sid name;
                               (room3, botEvents, moved) = maybeBotMove room2 roomId rnd
                           in (bindSocket (putRoom s1 roomId room3) sid roomId preferredSymbol name,
                               (if ack then [AckJoined sid roomId preferredSymbol md (difficulty room2)] else [])
                                 @ [Broadcast roomId (getState room2)] @ botEvents)))
                     else
                       (case (if players room1 SymX = None then Some SymX
                              else if players room1 SymO = None then Some SymO else None) of
                          None \<Rightarrow> (putRoom s1 roomId room1, rejectJoin sid ack ''Room is full.'')
                        | Some symbol \<Rightarrow>
                            (let room2 = takeSeat room1 symbol sid name
                             in (bindSocket (putRoom s1 roomId room2) sid roomId symbol name,
                                 (if ack then [AckJoined sid roomId symbol md (difficulty room2)] else [])
                                   @ [Broadcast roomId (getState room2)]))))))"

text \<open>
  The index check of \<^verbatim>\<open>game:move\<close>:
  \<^verbatim>\<open>typeof index !== 'number' || index < 0 || index > 8\<close>. It yields the number when
  the check lets it through.
\<close>

definition checkIndex :: "jsval \<Rightarrow> rat option" where
  "checkIndex v =
     (case v of
        JNumber q \<Rightarrow> (if q < 0 \<or> q > 8 then None else Some q)
      | _ \<Rightarrow> None)"

text \<open>The handler of \<^verbatim>\<open>game:move\<close>.\<close>

definition moveHandler :: "server \<Rightarrow> string \<Rightarrow> move_payload \<Rightarrow> nat \<Rightarrow> server \<times> event list" where
  "moveHandler s sid payload rnd =
     (let roomId = sanitize (mp_roomId payload) (sd_roomId (socketData s sid));
          index = mp_index payload;
          symbol = sd_symbol (socketData s sid)
      in case (roomsGet s roomId, roomId, symbol) of
           (Some r, Some rid, Some sy) \<Rightarrow>
             if turn r \<noteq> sy then (s, [PrivateError sid ''Not your turn.''])
             else if winner r \<noteq> None \<or> isDraw r then (s, [PrivateError sid ''Game is finished.''])
             else
               (case checkIndex index of
                  None \<Rightarrow> (s, [PrivateError sid ''Invalid move.''])
                | Some q \<Rightarrow>
                    if boardGet r q \<noteq> None then (s, [PrivateError sid ''Cell already taken.''])
                    else
                      (let r1 = applyMove r sy q;
                           (r2, botEvents, moved) =
                              (if mode r1 = BotMode then maybeBotMove r1 rid rnd else (r1, [], False))
                       in (putRoom s rid r2, botEvents @ [Broadcast rid (getState r2)])))
         | _ \<Rightarrow> (s, [PrivateError sid ''Join a room first.'']))"

text \<open>
  The listener of \<^verbatim>\<open>game:move\<close> as the transport calls it. The default
  \<^verbatim>\<open>payload = {}\<close> stands in for a missing argument only: when the client sends
  \<^verbatim>\<open>null\<close>, the first statement reads \<^verbatim>\<open>payload.roomId\<close> of null and throws a
  TypeError (\<open>None\<close>) before a room is looked up and before anything is emitted. Any
  other argument is read through its properties \<^verbatim>\<open>roomId\<close> and \<^verbatim>\<open>index\<close>, which are
  undefined where the argument has none.
\<close>

definition moveRequest ::
  "server \<Rightarrow> string \<Rightarrow> move_payload option \<Rightarrow> nat \<Rightarrow> (server \<times> event list) option" where
  "moveRequest s sid arg rnd =
     (case arg of None \<Rightarrow> None | Some payload \<Rightarrow> Some (moveHandler s sid payload rnd))"

text \<open>The handler of \<^verbatim>\<open>game:reset\<close>; its payload carries only \<^verbatim>\<open>roomId\<close>.\<close>

definition resetHandler :: "server \<Rightarrow> string \<Rightarrow> jsval \<Rightarrow> nat \<Rightarrow> server \<times> event list" where
  "resetHandler s sid payloadRoomId rnd =
     (let roomId = sanitize payloadRoomId (sd_roomId (socketData s sid))
      in case (roomsGet s roomId, roomId, sd_symbol (socketData s sid)) of
           (Some r, Some rid, Some sy) \<Rightarrow>
             (let r1 = resetRoom r;
                  (r2, botEvents, moved) = maybeBotMove r1 rid rnd
              in (putRoom s rid r2, [Broadcast rid (getState r1)] @ botEvents))
         | _ \<Rightarrow> (s, [PrivateError sid ''Join a room first.'']))"

text \<open>
  The handler of \<^verbatim>\<open>disconnect\<close>. The connection is gone afterwards, so its
  \<^verbatim>\<open>socket.data\<close> leaves the state.
\<close>

definition disconnectHandler :: "server \<Rightarrow> string \<Rightarrow> server \<times> event list" where
  "disconnectHandler s sid =
     (let roomId = sd_roomId (socketData s sid);
          gone = s\<lparr>socks := (socks s)(sid := None)\<rparr>
      in case (roomsGet s roomId, roomId) of
           (Some r, Some rid) \<Rightarrow>
             (let r1 =
                    (case sockets r sid of
                       None \<Rightarrow> r
                     | Some symbol \<Rightarrow>
                         (if players r symbol \<noteq> None \<and> \<not> isBot (players r symbol)
                          then r\<lparr>players := (players r)(symbol := None)\<rparr> else r)
                           \<lparr>sockets := (sockets r)(sid := None)\<rparr>);
                  r2 = (if \<not> hasHuman r1 then resetRoom r1 else r1)
              in (putRoom gone rid r2, [Broadcast rid (getState r2)]))
         | _ \<Rightarrow> (gone, []))"

section \<open>Executions of the server\<close>

text \<open>
  One event of the transport: a connection opens, or one of the four handlers runs
  for a connected socket. The natural number of a request is the random draw of the
  easy bot, should the handler reach it. A request whose payload is \<^verbatim>\<open>null\<close> ends in
  a TypeError that nothing in index.js catches, which ends the process: it has no
  successor state and is not a step of an execution.
\<close>

datatype request =
    Connect string
  | Join string join_payload bool nat
  | Move string move_payload nat
  | Reset string jsval nat
  | Disconnect string

fun handle :: "server \<Rightarrow> request \<Rightarrow> server" where
  "handle s (Connect sid) = s\<lparr>socks := (socks s)(sid \<mapsto> noData)\<rparr>"
| "handle s (Join sid payload ack rnd) = fst (joinHandler s sid payload ack rnd)"
| "handle s (Move sid payload rnd) = fst (moveHandler s sid payload rnd)"
| "handle s (Reset sid v rnd) = fst (resetHandler s sid v rnd)"
| "handle s (Disconnect sid) = fst (disconnectHandler s sid)"

fun enabled :: "server \<Rightarrow> request \<Rightarrow> bool" where
  "enabled s (Connect sid) = (socks s sid = None)"
| "enabled s (Join sid payload ack rnd) = (socks s sid \<noteq> None)"
| "enabled s (Move sid payload rnd) = (socks s sid \<noteq> None)"
| "enabled s (Reset sid v rnd) = (socks s sid \<noteq> None)"
| "enabled s (Disconnect sid) = (socks s sid \<noteq> None)"

definition initial :: server where
  "initial = \<lparr>rooms = Map.empty, socks = Map.empty\<rparr>"

inductive reachable :: "server \<Rightarrow> bool" where
  start: "reachable initial"
| step: "reachable s \<Longrightarrow> enabled s req \<Longrightarrow> reachable (handle s req)"

section \<open>The state mutator (C6)\<close>

lemma isArrayIndex_of_nat [simp]: "isArrayIndex (of_nat i)"
  by (simp add: isArrayIndex_def)

lemma arrayIndex_of_nat [simp]: "arrayIndex (of_nat i) = i"
  by (simp add: arrayIndex_def)

lemma applyMove_fields:
  "room_id (applyMove r s q) = room_id r"
  "players (applyMove r s q) = players r"
  "sockets (applyMove r s q) = sockets r"
  "mode (applyMove r s q) = mode r"
  "difficulty (applyMove r s q) = difficulty r"
  "botSymbol (applyMove r s q) = botSymbol r"
  by (simp_all add: applyMove_def boardSet_def Let_def)

lemma applyMove_outcome:
  "winner (applyMove r s q) = getWinner (board (applyMove r s q))"
  "isDraw (applyMove r s q) =
     (getWinner (board (applyMove r s q)) = None \<and> everyFilled (board (applyMove r s q)))"
  "turn (applyMove r s q) =
     (if getWinner (board (applyMove r s q)) = None \<and> \<not> everyFilled (board (applyMove r s q))
      then other (turn r) else turn r)"
  by (auto simp: applyMove_def boardSet_def Let_def other_def)

lemma applyMove_board:
  "board (applyMove r s q) =
     (if isArrayIndex q then writeCell (board r) (arrayIndex q) (Some s) else board r)"
  by (simp add: applyMove_def boardSet_def Let_def)

lemma applyMove_boardProps:
  "boardProps (applyMove r s q) =
     (if isArrayIndex q then boardProps r else (boardProps r)(q \<mapsto> s))"
  by (simp add: applyMove_def boardSet_def Let_def)

lemma scenarioB_board:
  "getWinner [Some SymX, Some SymX, Some SymO, Some SymO, Some SymO, Some SymX,
              Some SymX, Some SymO, Some SymX] = None"
  "everyFilled [Some SymX, Some SymX, Some SymO, Some SymO, Some SymO, Some SymX,
                Some SymX, Some SymO, Some SymX]"
  by (simp_all add: getWinner_def winLines_def cellAt_def everyFilled_def)

text \<open>
  C6. An accepted move is one the handler lets through: the index passed
  \<open>checkIndex\<close> and \<^verbatim>\<open>room.board[index]\<close> is empty (the handler has checked before
  that the outcome is undecided). On a board of 9 cells \<open>applyMove\<close> then writes the
  moving symbol at the index (the cell, when the index is a whole number; otherwise
  only a property of the array, the cells staying as they are), sets \<open>winner\<close> to the
  evaluator's result on the resulting board, sets \<open>isDraw\<close> exactly when that board is
  full with no winner, flips \<open>turn\<close> if and only if there is no winner and the board
  is not full, and leaves every other field alone. Whenever the resulting board is
  [X,X,O,O,O,X,X,O,X] the outcome is a draw with no winner.
\<close>

theorem applyMove_accepted:
  assumes "length (board r) = 9" and "checkIndex v = Some q" and "boardGet r q = None"
    and "winner r = None" and "\<not> isDraw r"
  shows "boardGet (applyMove r s q) q = Some s
    \<and> board (applyMove r s q) = (if isArrayIndex q then (board r)[arrayIndex q := Some s] else board r)
    \<and> winner (applyMove r s q) = getWinner (board (applyMove r s q))
    \<and> isDraw (applyMove r s q) =
        (getWinner (board (applyMove r s q)) = None \<and> everyFilled (board (applyMove r s q)))
    \<and> (turn (applyMove r s q) = other (turn r)) =
        (getWinner (board (applyMove r s q)) = None \<and> \<not> everyFilled (board (applyMove r s q)))
    \<and> (turn (applyMove r s q) = turn r \<or> turn (applyMove r s q) = other (turn r))
    \<and> players (applyMove r s q) = players r \<and> sockets (applyMove r s q) = sockets r
    \<and> mode (applyMove r s q) = mode r \<and> difficulty (applyMove r s q) = difficulty r
    \<and> botSymbol (applyMove r s q) = botSymbol r \<and> room_id (applyMove r s q) = room_id r
    \<and> (board (applyMove r s q) =
          [Some SymX, Some SymX, Some SymO, Some SymO, Some SymO, Some SymX,
           Some SymX, Some SymO, Some SymX]
        \<longrightarrow> isDraw (applyMove r s q) \<and> winner (applyMove r s q) = None)"
proof -
  from assms(2) have q: "0 \<le> q" "q \<le> 8"
    by (auto simp: checkIndex_def split: jsval.splits if_splits)
  have idx: "isArrayIndex q \<Longrightarrow> arrayIndex q < 9"
  proof -
    assume "isArrayIndex q"
    from q have "\<lfloor>q\<rfloor> < 9" by (simp add: floor_less_iff)
    then show ?thesis unfolding arrayIndex_def by linarith
  qed
  have b: "board (applyMove r s q) =
      (if isArrayIndex q then (board r)[arrayIndex q := Some s] else board r)"
    using idx assms(1) by (simp add: applyMove_board writeCell_def)
  have g: "boardGet (applyMove r s q) q = Some s"
    using idx assms(1) by (simp add: boardGet_def applyMove_boardProps b cellAt_def)
  have t: "other (turn r) \<noteq> turn r" by (simp add: other_def)
  show ?thesis
    using b g t scenarioB_board
    by (simp add: applyMove_outcome applyMove_fields)
qed

theorem applyMove_accepted_witness:
  "(let r = (createRoom (lit ''lobby''))\<lparr>board := [Some SymX, Some SymX, Some SymO, Some SymO, Some SymO,
                Some SymX, Some SymX, Some SymO, None], turn := SymX\<rparr>
    in length (board r) = 9 \<and> checkIndex (JNumber 8) = Some 8 \<and> boardGet r 8 = None
       \<and> winner r = None \<and> \<not> isDraw r
       \<and> board (applyMove r SymX 8) =
           [Some SymX, Some SymX, Some SymO, Some SymO, Some SymO, Some SymX,
            Some SymX, Some SymO, Some SymX]
       \<and> isDraw (applyMove r SymX 8) \<and> winner (applyMove r SymX 8) = None
       \<and> turn (applyMove r SymX 8) = SymX)"
proof -
  define r where "r = (createRoom (lit ''lobby''))\<lparr>board := [Some SymX, Some SymX, Some SymO, Some SymO,
      Some SymO, Some SymX, Some SymX, Some SymO, None], turn := SymX\<rparr>"
  have ai: "isArrayIndex 8" "arrayIndex 8 = 8"
    using isArrayIndex_of_nat [of 8] arrayIndex_of_nat [of 8] by simp_all
  have h: "length (board r) = 9" "checkIndex (JNumber 8) = Some 8" "boardGet r 8 = None"
    "winner r = None" "\<not> isDraw r"
    by (simp_all add: r_def createRoom_def checkIndex_def boardGet_def ai cellAt_def)
  have b: "(board r)[8 := Some SymX] = [Some SymX, Some SymX, Some SymO, Some SymO, Some SymO,
      Some SymX, Some SymX, Some SymO, Some SymX]"
    by (simp add: r_def)
  have tr: "turn r = SymX" by (simp add: r_def)
  from applyMove_accepted [OF h, of SymX] b ai tr h scenarioB_board
  have "board (applyMove r SymX 8) = [Some SymX, Some SymX, Some SymO, Some SymO, Some SymO,
      Some SymX, Some SymX, Some SymO, Some SymX]
    \<and> isDraw (applyMove r SymX 8) \<and> winner (applyMove r SymX 8) = None
    \<and> turn (applyMove r SymX 8) = SymX"
    by (auto simp: other_def)
  with h show ?thesis unfolding r_def Let_def by blast
qed

section \<open>Full reset (C8)\<close>

lemma maybeBotMove_cases:
  "maybeBotMove r rid rnd = (r, [], False)
   \<or> (\<exists>i. botSymbol r = Some (turn r) \<and> mode r = BotMode \<and> winner r = None \<and> \<not> isDraw r
          \<and> getBotMove r rnd = Some i
          \<and> maybeBotMove r rid rnd =
              (applyMove r (turn r) (of_nat i),
               [Broadcast rid (getState (applyMove r (turn r) (of_nat i)))], True))"
  by (auto simp: maybeBotMove_def Let_def split: option.splits)

lemma maybeBotMove_fields:
  "room_id (fst (maybeBotMove r rid rnd)) = room_id r"
  "players (fst (maybeBotMove r rid rnd)) = players r"
  "sockets (fst (maybeBotMove r rid rnd)) = sockets r"
  "mode (fst (maybeBotMove r rid rnd)) = mode r"
  "difficulty (fst (maybeBotMove r rid rnd)) = difficulty r"
  "botSymbol (fst (maybeBotMove r rid rnd)) = botSymbol r"
  using maybeBotMove_cases [of r rid rnd] by (auto simp: applyMove_fields)

lemma resetRoom_fields:
  "board (resetRoom r) = replicate 9 None"
  "boardProps (resetRoom r) = Map.empty"
  "turn (resetRoom r) = SymX"
  "winner (resetRoom r) = None"
  "isDraw (resetRoom r) = False"
  "room_id (resetRoom r) = room_id r"
  "players (resetRoom r) = players r"
  "sockets (resetRoom r) = sockets r"
  "mode (resetRoom r) = mode r"
  "difficulty (resetRoom r) = difficulty r"
  "botSymbol (resetRoom r) = botSymbol r"
  by (simp_all add: resetRoom_def emptyBoard_def)

lemma resetHandler_honoured:
  assumes "sanitize v (sd_roomId (socketData s sid)) = Some rid" and "rooms s rid = Some r"
    and "sd_symbol (socketData s sid) = Some sy"
  shows "fst (resetHandler s sid v rnd) = putRoom s rid (fst (maybeBotMove (resetRoom r) rid rnd))"
  using assms by (simp add: resetHandler_def roomsGet_def Let_def split: prod.splits)

text \<open>The room as the disconnect handler leaves it just before it tests \<open>hasHuman\<close>.\<close>

definition vacateSeat :: "room \<Rightarrow> string \<Rightarrow> room" where
  "vacateSeat r sid =
     (case sockets r sid of
        None \<Rightarrow> r
      | Some symbol \<Rightarrow>
          (if players r symbol \<noteq> None \<and> \<not> isBot (players r symbol)
           then r\<lparr>players := (players r)(symbol := None)\<rparr> else r)
            \<lparr>sockets := (sockets r)(sid := None)\<rparr>)"

lemma disconnectHandler_room:
  assumes "sd_roomId (socketData s sid) = Some rid" and "rooms s rid = Some r"
  shows "rooms (fst (disconnectHandler s sid)) rid =
     Some (if hasHuman (vacateSeat r sid) then vacateSeat r sid else resetRoom (vacateSeat r sid))"
  using assms
  by (simp add: disconnectHandler_def roomsGet_def Let_def putRoom_def vacateSeat_def)

text \<open>
  C8. The reset step is \<open>resetRoom\<close>: it leaves a board of 9 empty cells, turn X
  and an undecided outcome, and every other field (mode, difficulty, botSymbol, the
  seat occupants, the socket table, the identifier) as it was. An honoured reset
  request stores the room that \<open>resetRoom\<close> and then the bot step produce, and a
  disconnect that leaves no human in the room stores \<open>resetRoom\<close> of the room as it
  was once the leaving connection's seat had been cleared; in both, mode, difficulty
  and botSymbol are those of the room before the request.
\<close>

theorem full_reset_frame:
  "board (resetRoom r) = replicate 9 None \<and> turn (resetRoom r) = SymX
   \<and> winner (resetRoom r) = None \<and> isDraw (resetRoom r) = False
   \<and> mode (resetRoom r) = mode r \<and> difficulty (resetRoom r) = difficulty r
   \<and> botSymbol (resetRoom r) = botSymbol r \<and> players (resetRoom r) = players r
   \<and> sockets (resetRoom r) = sockets r \<and> room_id (resetRoom r) = room_id r
   \<and> (sanitize v (sd_roomId (socketData s sid)) = Some rid \<and> rooms s rid = Some r
        \<and> sd_symbol (socketData s sid) = Some sy
      \<longrightarrow> (\<exists>r'. rooms (fst (resetHandler s sid v rnd)) rid = Some r'
            \<and> r' = fst (maybeBotMove (resetRoom r) rid rnd)
            \<and> mode r' = mode r \<and> difficulty r' = difficulty r \<and> botSymbol r' = botSymbol r
            \<and> players r' = players r))
   \<and> (sd_roomId (socketData s sid) = Some rid \<and> rooms s rid = Some r
        \<and> \<not> hasHuman (vacateSeat r sid)
      \<longrightarrow> (\<exists>r'. rooms (fst (disconnectHandler s sid)) rid = Some r'
            \<and> r' = resetRoom (vacateSeat r sid)
            \<and> board r' = replicate 9 None \<and> turn r' = SymX \<and> winner r' = None \<and> \<not> isDraw r'
            \<and> mode r' = mode r \<and> difficulty r' = difficulty r \<and> botSymbol r' = botSymbol r
            \<and> players r' = players (vacateSeat r sid)))"
proof -
  have v: "mode (vacateSeat r sid) = mode r" "difficulty (vacateSeat r sid) = difficulty r"
    "botSymbol (vacateSeat r sid) = botSymbol r"
    by (simp_all add: vacateSeat_def split: option.splits)
  show ?thesis
    by (auto simp: resetRoom_fields resetHandler_honoured putRoom_def maybeBotMove_fields
        disconnectHandler_room v)
qed

theorem full_reset_frame_witness:
  "(let r = takeSeat (createRoom (lit ''r'')) SymX ''a'' (lit ''Ann'');
        s = \<lparr>rooms = [(lit ''r'') \<mapsto> r],
             socks = [''a'' \<mapsto> \<lparr>sd_roomId = Some (lit ''r''), sd_symbol = Some SymX, sd_name = Some (lit ''Ann'')\<rparr>]\<rparr>
    in sanitize JOther (sd_roomId (socketData s ''a'')) = Some (lit ''r'') \<and> rooms s (lit ''r'') = Some r
       \<and> sd_symbol (socketData s ''a'') = Some SymX \<and> sd_roomId (socketData s ''a'') = Some (lit ''r'')
       \<and> \<not> hasHuman (vacateSeat r ''a'')
       \<and> rooms (fst (resetHandler s ''a'' JOther 0)) (lit ''r'') = Some (fst (maybeBotMove (resetRoom r) (lit ''r'') 0))
       \<and> rooms (fst (disconnectHandler s ''a'')) (lit ''r'') = Some (resetRoom (vacateSeat r ''a''))
       \<and> mode (resetRoom (vacateSeat r ''a'')) = Pvp
       \<and> board (resetRoom (vacateSeat r ''a'')) = replicate 9 None)"
proof -
  define r where "r = takeSeat (createRoom (lit ''r'')) SymX ''a'' (lit ''Ann'')"
  define s where "s = \<lparr>rooms = [(lit ''r'') \<mapsto> r],
      socks = [''a'' \<mapsto> \<lparr>sd_roomId = Some (lit ''r''), sd_symbol = Some SymX, sd_name = Some (lit ''Ann'')\<rparr>]\<rparr>"
  have h1: "sanitize JOther (sd_roomId (socketData s ''a'')) = Some (lit ''r'')"
    and h2: "rooms s (lit ''r'') = Some r"
    and h3: "sd_symbol (socketData s ''a'') = Some SymX"
    and h4: "sd_roomId (socketData s ''a'') = Some (lit ''r'')"
    by (simp_all add: s_def sanitize_def socketData_def)
  have h5: "\<not> hasHuman (vacateSeat r ''a'')"
    by (simp add: r_def vacateSeat_def takeSeat_def createRoom_def hasHuman_def isBot_def)
  have m: "mode r = Pvp"
    by (simp add: r_def takeSeat_def createRoom_def)
  from full_reset_frame [of r JOther s "''a''" "lit ''r''" SymX 0] h1 h2 h3 h4 h5 m
  have "rooms (fst (resetHandler s ''a'' JOther 0)) (lit ''r'') = Some (fst (maybeBotMove (resetRoom r) (lit ''r'') 0))
      \<and> rooms (fst (disconnectHandler s ''a'')) (lit ''r'') = Some (resetRoom (vacateSeat r ''a''))
      \<and> mode (resetRoom (vacateSeat r ''a'')) = Pvp
      \<and> board (resetRoom (vacateSeat r ''a'')) = replicate 9 None"
    by auto
  with h1 h2 h3 h4 h5 show ?thesis
    unfolding r_def s_def Let_def by blast
qed

section \<open>Joining (C10)\<close>

lemma maybeBotMove_events:
  "PrivateError sid msg \<notin> set (fst (snd (maybeBotMove r rid rnd)))"
  using maybeBotMove_cases [of r rid rnd] by auto

lemma hasHuman_takeSeat:
  "sid \<noteq> ''BOT'' \<Longrightarrow> hasHuman (takeSeat r sy sid name)"
  by (cases sy) (simp_all add: hasHuman_def takeSeat_def isBot_def)

lemma takeSeat_fields:
  "room_id (takeSeat r sy sid name) = room_id r"
  "board (takeSeat r sy sid name) = board r"
  "boardProps (takeSeat r sy sid name) = boardProps r"
  "turn (takeSeat r sy sid name) = turn r"
  "winner (takeSeat r sy sid name) = winner r"
  "isDraw (takeSeat r sy sid name) = isDraw r"
  "mode (takeSeat r sy sid name) = mode r"
  "difficulty (takeSeat r sy sid name) = difficulty r"
  "botSymbol (takeSeat r sy sid name) = botSymbol r"
  by (simp_all add: takeSeat_def)

lemma joinHandler_pvp_second_seat:
  assumes "rooms s rid = Some r" and "mode r = Pvp" and "hasHuman r"
    and "players r SymX \<noteq> None" and "players r SymO = None"
    and "sanitizeStr (jp_roomId payload) (lit ''lobby'') = rid"
    and "sanitizeStr (jp_name payload) [] = name" and "name \<noteq> []"
    and "normalizeMode (jp_mode payload) = Pvp"
  shows "joinHandler s sid payload ack rnd =
     (bindSocket (putRoom s rid (takeSeat r SymO sid name)) sid rid SymO name,
      (if ack then [AckJoined sid rid SymO Pvp (difficulty r)] else [])
        @ [Broadcast rid (getState (takeSeat r SymO sid name))])"
  using assms by (auto simp: joinHandler_def getRoom_def Let_def takeSeat_fields)

text \<open>
  C10. A connection \<open>sid\<close> that holds seat X of a PvP room (its identifier is in the
  seat; a socket identifier is never the string BOT) and joins the same room again
  in PvP mode with a non-blank name, while seat O is empty, is accepted with symbol O:
  no error is sent, the acknowledgement carries O, its binding now names O, and
  afterwards both seats of the room hold the identifier \<open>sid\<close>.
\<close>

theorem second_join_takes_seat_O:
  assumes "rooms s rid = Some r" and "mode r = Pvp"
    and "players r SymX = Some p" and "player_id p = sid" and "sid \<noteq> ''BOT''"
    and "players r SymO = None"
    and "sanitizeStr (jp_roomId payload) (lit ''lobby'') = rid"
    and "sanitizeStr (jp_name payload) [] = name" and "name \<noteq> []"
    and "normalizeMode (jp_mode payload) = Pvp"
  shows "\<exists>s' evs r' px po.
      joinHandler s sid payload ack rnd = (s', evs)
      \<and> evs = (if ack then [AckJoined sid rid SymO Pvp (difficulty r)] else [])
                @ [Broadcast rid (getState r')]
      \<and> sd_symbol (socketData s' sid) = Some SymO \<and> sd_roomId (socketData s' sid) = Some rid
      \<and> rooms s' rid = Some r'
      \<and> players r' SymX = Some px \<and> player_id px = sid
      \<and> players r' SymO = Some po \<and> player_id po = sid"
proof -
  have "hasHuman r"
    using assms(3,4,5) by (simp add: hasHuman_def isBot_def)
  then have "joinHandler s sid payload ack rnd =
     (bindSocket (putRoom s rid (takeSeat r SymO sid name)) sid rid SymO name,
      (if ack then [AckJoined sid rid SymO Pvp (difficulty r)] else [])
        @ [Broadcast rid (getState (takeSeat r SymO sid name))])"
    using assms by (intro joinHandler_pvp_second_seat) simp_all
  then show ?thesis
    using assms(3,4)
    by (simp add: bindSocket_def putRoom_def socketData_def takeSeat_def)
qed

theorem second_join_takes_seat_O_witness:
  "(let r = takeSeat (createRoom (lit ''lobby'')) SymX ''a'' (lit ''Ann'');
        s = \<lparr>rooms = [(lit ''lobby'') \<mapsto> r],
             socks = [''a'' \<mapsto> \<lparr>sd_roomId = Some (lit ''lobby''), sd_symbol = Some SymX, sd_name = Some (lit ''Ann'')\<rparr>]\<rparr>;
        payload = \<lparr>jp_roomId = JOther, jp_name = JString (lit ''Ann''), jp_mode = JString (lit ''pvp''),
                   jp_difficulty = JOther, jp_symbol = JOther\<rparr>
    in rooms s (lit ''lobby'') = Some r \<and> mode r = Pvp
       \<and> players r SymX = Some \<lparr>player_id = ''a'', player_name = (lit ''Ann''), player_isBot = False\<rparr>
       \<and> players r SymO = None
       \<and> sanitizeStr (jp_roomId payload) (lit ''lobby'') = (lit ''lobby'')
       \<and> sanitizeStr (jp_name payload) [] = (lit ''Ann'')
       \<and> normalizeMode (jp_mode payload) = Pvp
       \<and> sd_symbol (socketData (fst (joinHandler s ''a'' payload True 0)) ''a'') = Some SymO
       \<and> snd (joinHandler s ''a'' payload True 0) \<noteq> [])"
proof -
  define r where "r = takeSeat (createRoom (lit ''lobby'')) SymX ''a'' (lit ''Ann'')"
  define s where "s = \<lparr>rooms = [(lit ''lobby'') \<mapsto> r],
      socks = [''a'' \<mapsto> \<lparr>sd_roomId = Some (lit ''lobby''), sd_symbol = Some SymX, sd_name = Some (lit ''Ann'')\<rparr>]\<rparr>"
  define payload where "payload = \<lparr>jp_roomId = JOther, jp_name = JString (lit ''Ann''),
      jp_mode = JString (lit ''pvp''), jp_difficulty = JOther, jp_symbol = JOther\<rparr>"
  have h: "rooms s (lit ''lobby'') = Some r" "mode r = Pvp"
    "players r SymX = Some \<lparr>player_id = ''a'', player_name = (lit ''Ann''), player_isBot = False\<rparr>"
    "player_id \<lparr>player_id = ''a'', player_name = (lit ''Ann''), player_isBot = False\<rparr> = ''a''"
    "''a'' \<noteq> ''BOT''"
    "players r SymO = None"
    "sanitizeStr (jp_roomId payload) (lit ''lobby'') = (lit ''lobby'')"
    "sanitizeStr (jp_name payload) [] = (lit ''Ann'')" "(lit ''Ann'') \<noteq> []"
    "normalizeMode (jp_mode payload) = Pvp"
    by (simp_all add: s_def r_def payload_def takeSeat_def createRoom_def sanitizeStr_def
        sanitize_def trim_def isSpace_def lit_def normalizeMode_def)
  from second_join_takes_seat_O [OF h, of True 0]
  have "sd_symbol (socketData (fst (joinHandler s ''a'' payload True 0)) ''a'') = Some SymO
      \<and> snd (joinHandler s ''a'' payload True 0) \<noteq> []"
    by auto
  with h show ?thesis
    unfolding r_def s_def payload_def Let_def by blast
qed

lemma joinHandler_bot_full:
  assumes "rooms s rid = Some r" and "mode r = BotMode" and "hasHuman r"
    and "sanitizeStr (jp_roomId payload) (lit ''lobby'') = rid"
    and "sanitizeStr (jp_name payload) [] \<noteq> []"
    and "normalizeMode (jp_mode payload) = BotMode"
  shows "joinHandler s sid payload ack rnd = (s, rejectJoin sid ack ''Room is full.'')"
  using assms by (simp add: joinHandler_def getRoom_def Let_def)

lemma joinHandler_bot_fresh:
  assumes "rooms s rid = Some r" and "\<not> hasHuman r"
    and "sanitizeStr (jp_roomId payload) (lit ''lobby'') = rid"
    and "sanitizeStr (jp_name payload) [] = name" and "name \<noteq> []"
    and "normalizeMode (jp_mode payload) = BotMode"
    and "normalizeSymbol (jp_symbol payload) = pref"
    and "room2 = takeSeat (ensureBot (resetRoom r) (other pref)
                    (normalizeDifficulty (jp_difficulty payload))) pref sid name"
  shows "joinHandler s sid payload ack rnd =
     (bindSocket (putRoom s rid (fst (maybeBotMove room2 rid rnd))) sid rid pref name,
      (if ack then [AckJoined sid rid pref BotMode (difficulty room2)] else [])
        @ [Broadcast rid (getState room2)] @ fst (snd (maybeBotMove room2 rid rnd)))"
  using assms
  by (cases pref) (simp_all add: joinHandler_def getRoom_def Let_def other_def split: prod.splits)

section \<open>The move handler, case by case\<close>

text \<open>
  The validator's conditions in the words of the specification: the index lies in
  [0,8] when it is a number between 0 and 8, and the target cell is what
  \<^verbatim>\<open>room.board[index]\<close> holds.
\<close>

definition indexInRange :: "jsval \<Rightarrow> bool" where
  "indexInRange v = (case v of JNumber q \<Rightarrow> 0 \<le> q \<and> q \<le> 8 | _ \<Rightarrow> False)"

definition indexValue :: "jsval \<Rightarrow> rat" where
  "indexValue v = (case v of JNumber q \<Rightarrow> q | _ \<Rightarrow> 0)"

text \<open>The room an accepted move leaves: the mover's write, then the bot's reply in a bot room.\<close>

definition afterMove :: "room \<Rightarrow> sym \<Rightarrow> rat \<Rightarrow> jstring \<Rightarrow> nat \<Rightarrow> room \<times> event list" where
  "afterMove r sy q rid rnd =
     (if mode (applyMove r sy q) = BotMode
      then (fst (maybeBotMove (applyMove r sy q) rid rnd),
            fst (snd (maybeBotMove (applyMove r sy q) rid rnd)))
      else (applyMove r sy q, []))"

lemma checkIndex_iff:
  "checkIndex v = (if indexInRange v then Some (indexValue v) else None)"
  by (auto simp: checkIndex_def indexInRange_def indexValue_def split: jsval.splits)

lemma moveHandler_resolved:
  assumes "sanitize (mp_roomId payload) (sd_roomId (socketData s sid)) = Some rid"
    and "rooms s rid = Some r" and "sd_symbol (socketData s sid) = Some sy"
  shows "moveHandler s sid payload rnd =
     (if turn r \<noteq> sy then (s, [PrivateError sid ''Not your turn.''])
      else if winner r \<noteq> None \<or> isDraw r then (s, [PrivateError sid ''Game is finished.''])
      else if \<not> indexInRange (mp_index payload) then (s, [PrivateError sid ''Invalid move.''])
      else if boardGet r (indexValue (mp_index payload)) \<noteq> None
        then (s, [PrivateError sid ''Cell already taken.''])
      else (putRoom s rid (fst (afterMove r sy (indexValue (mp_index payload)) rid rnd)),
            snd (afterMove r sy (indexValue (mp_index payload)) rid rnd)
              @ [Broadcast rid (getState (fst (afterMove r sy (indexValue (mp_index payload)) rid rnd)))]))"
  using assms
  by (simp add: moveHandler_def roomsGet_def Let_def checkIndex_iff afterMove_def split: prod.splits)

lemma moveHandler_unresolved:
  assumes "roomsGet s (sanitize (mp_roomId payload) (sd_roomId (socketData s sid))) = None
      \<or> sd_symbol (socketData s sid) = None"
  shows "moveHandler s sid payload rnd = (s, [PrivateError sid ''Join a room first.''])"
  using assms
  by (auto simp: moveHandler_def roomsGet_def Let_def split: option.splits)

lemma afterMove_events:
  "PrivateError sid msg \<notin> set (snd (afterMove r sy q rid rnd))"
  by (simp add: afterMove_def maybeBotMove_events)

lemma moveHandler_frame:
  "socks (fst (moveHandler s sid payload rnd)) = socks s"
  "k \<noteq> the (sanitize (mp_roomId payload) (sd_roomId (socketData s sid)))
     \<Longrightarrow> rooms (fst (moveHandler s sid payload rnd)) k = rooms s k"
proof -
  let ?t = "sanitize (mp_roomId payload) (sd_roomId (socketData s sid))"
  consider (u) "roomsGet s ?t = None \<or> sd_symbol (socketData s sid) = None"
    | (r) rid r sy where "?t = Some rid" "rooms s rid = Some r" "sd_symbol (socketData s sid) = Some sy"
    by (cases ?t; cases "sd_symbol (socketData s sid)") (auto simp: roomsGet_def)
  then have "socks (fst (moveHandler s sid payload rnd)) = socks s
    \<and> (k \<noteq> the ?t \<longrightarrow> rooms (fst (moveHandler s sid payload rnd)) k = rooms s k)"
  proof cases
    case u
    then show ?thesis by (simp add: moveHandler_unresolved)
  next
    case r
    then show ?thesis by (simp add: moveHandler_resolved [OF r] putRoom_def)
  qed
  then show "socks (fst (moveHandler s sid payload rnd)) = socks s"
    and "k \<noteq> the (sanitize (mp_roomId payload) (sd_roomId (socketData s sid)))
     \<Longrightarrow> rooms (fst (moveHandler s sid payload rnd)) k = rooms s k"
    by simp_all
qed

lemma joinHandler_pvp_fresh:
  assumes "rooms s rid = None"
    and "sanitizeStr (jp_roomId payload) (lit ''lobby'') = rid"
    and "sanitizeStr (jp_name payload) [] = name" and "name \<noteq> []"
    and "normalizeMode (jp_mode payload) = Pvp"
  shows "fst (joinHandler s sid payload ack rnd) =
     bindSocket (putRoom s rid (takeSeat (createRoom rid) SymX sid name)) sid rid SymX name"
proof -
  have "\<not> hasHuman (createRoom rid)"
    by (simp add: hasHuman_def createRoom_def)
  moreover have "ensurePvp (resetRoom (createRoom rid)) = createRoom rid"
    by (simp add: ensurePvp_def resetRoom_def createRoom_def isBot_def)
  moreover have "players (createRoom rid) SymX = None"
    by (simp add: createRoom_def)
  ultimately show ?thesis
    using assms
    by (simp add: joinHandler_def getRoom_def Let_def putRoom_def bindSocket_def)
qed

section \<open>The search (C9)\<close>

text \<open>
  \<^verbatim>\<open>reduce\<close> keeps the running best and replaces it only on a strictly better
  key, so over records whose indices ascend it returns the first record with the best
  key: the best key at the least index.
\<close>

lemma foldl_first_best:
  fixes key :: "'a \<Rightarrow> int" and idx :: "'a \<Rightarrow> nat"
  assumes "sorted_wrt (<) (map idx (x # xs))"
  shows "foldl (\<lambda>best move. if key move > key best then move else best) x xs \<in> set (x # xs)
    \<and> (\<forall>m\<in>set (x # xs).
          key m \<le> key (foldl (\<lambda>best move. if key move > key best then move else best) x xs)
          \<and> (key m = key (foldl (\<lambda>best move. if key move > key best then move else best) x xs)
               \<longrightarrow> idx (foldl (\<lambda>best move. if key move > key best then move else best) x xs) \<le> idx m))"
  using assms
proof (induction xs arbitrary: x)
  case Nil
  show ?case by simp
next
  case (Cons y t)
  let ?f = "\<lambda>best move. if key move > key best then move else best"
  show ?case
  proof (cases "key y > key x")
    case True
    then have st: "foldl ?f x (y # t) = foldl ?f y t" by simp
    from Cons.prems have "sorted_wrt (<) (map idx (y # t))" by simp
    from Cons.IH [OF this]
    have ih: "foldl ?f y t \<in> set (y # t)"
      "\<And>m. m \<in> set (y # t) \<Longrightarrow> key m \<le> key (foldl ?f y t)"
      "\<And>m. m \<in> set (y # t) \<Longrightarrow> key m = key (foldl ?f y t) \<Longrightarrow> idx (foldl ?f y t) \<le> idx m"
      by blast+
    from ih(2) [of y] True have "key x < key (foldl ?f y t)" by simp
    with ih show ?thesis unfolding st by auto
  next
    case False
    then have st: "foldl ?f x (y # t) = foldl ?f x t" by simp
    from Cons.prems have "sorted_wrt (<) (map idx (x # t))" and xy: "idx x < idx y" by auto
    from Cons.IH [OF this(1)]
    have ih: "foldl ?f x t \<in> set (x # t)"
      "\<And>m. m \<in> set (x # t) \<Longrightarrow> key m \<le> key (foldl ?f x t)"
      "\<And>m. m \<in> set (x # t) \<Longrightarrow> key m = key (foldl ?f x t) \<Longrightarrow> idx (foldl ?f x t) \<le> idx m"
      by blast+
    have kx: "key x \<le> key (foldl ?f x t)" using ih(2) [of x] by simp
    have ky: "key y \<le> key (foldl ?f x t)" using kx False by simp
    have ty: "idx (foldl ?f x t) \<le> idx y" if "key y = key (foldl ?f x t)"
    proof -
      from that kx False have "key x = key (foldl ?f x t)" by simp
      with ih(3) [of x] have "idx (foldl ?f x t) \<le> idx x" by simp
      with xy show ?thesis by simp
    qed
    from ih ky ty show ?thesis unfolding st by auto
  qed
qed

lemma those_map_option:
  assumes "\<And>x. x \<in> set xs \<Longrightarrow> f x \<noteq> None"
  shows "those (map (\<lambda>x. map_option (g x) (f x)) xs) = Some (map (\<lambda>x. g x (the (f x))) xs)"
  using assms
proof (induction xs)
  case Nil
  show ?case by simp
next
  case (Cons a xs)
  from Cons.prems [of a] obtain y where "f a = Some y" by auto
  moreover have "those (map (\<lambda>x. map_option (g x) (f x)) xs) = Some (map (\<lambda>x. g x (the (f x))) xs)"
    by (rule Cons.IH) (simp add: Cons.prems)
  ultimately show ?case by simp
qed

lemma getAvailableMoves_nonempty:
  "\<not> everyFilled b \<Longrightarrow> getAvailableMoves b \<noteq> []"
  by (auto simp: everyFilled_def getAvailableMoves_def list_all_iff filter_empty_conv in_set_conv_nth)

lemma getAvailableMoves_sorted: "sorted_wrt (<) (getAvailableMoves b)"
  by (simp add: getAvailableMoves_def sorted_wrt_filter)

text \<open>The score minimax finds below the move to cell \<open>i\<close>.\<close>

definition childScore :: "cell list \<Rightarrow> sym \<Rightarrow> sym \<Rightarrow> sym \<Rightarrow> int \<Rightarrow> nat \<Rightarrow> int" where
  "childScore b current botSym humanSym depth i =
     mm_score (the (minimax (b[i := Some current])
        (if current = botSym then humanSym else botSym) botSym humanSym (depth + 1)))"

definition moveRecords :: "cell list \<Rightarrow> sym \<Rightarrow> sym \<Rightarrow> sym \<Rightarrow> int \<Rightarrow> mm_result list" where
  "moveRecords b current botSym humanSym depth =
     map (\<lambda>i. \<lparr>mm_score = childScore b current botSym humanSym depth i, mm_index = Some i\<rparr>)
       (getAvailableMoves b)"

lemma minimax_terminal:
  "getWinner b = Some bs \<Longrightarrow> minimax b cur bs hs d = Some \<lparr>mm_score = 10 - d, mm_index = None\<rparr>"
  "getWinner b \<noteq> Some bs \<Longrightarrow> getWinner b = Some hs \<Longrightarrow>
     minimax b cur bs hs d = Some \<lparr>mm_score = d - 10, mm_index = None\<rparr>"
  "getWinner b \<noteq> Some bs \<Longrightarrow> getWinner b \<noteq> Some hs \<Longrightarrow> everyFilled b \<Longrightarrow>
     minimax b cur bs hs d = Some \<lparr>mm_score = 0, mm_index = None\<rparr>"
  by (simp_all add: minimax.simps [of b cur bs hs d] Let_def)

lemma minimax_total: "\<exists>r. minimax b cur bs hs d = Some r"
proof (induction b cur bs hs d rule: minimax.induct)
  case (1 b cur bs hs d)
  show ?case
  proof (cases "getWinner b = Some bs \<or> getWinner b = Some hs \<or> everyFilled b")
    case True
    then show ?thesis
      by (auto simp: minimax.simps [of b cur bs hs d] Let_def)
  next
    case False
    then have ih: "minimax (b[i := Some cur]) (if cur = bs then hs else bs) bs hs (d + 1) \<noteq> None"
      if "i \<in> set (getAvailableMoves b)" for i
      using 1 [OF refl _ _ _ that] by auto
    have th: "those (map (\<lambda>i. map_option (\<lambda>res. \<lparr>mm_score = mm_score res, mm_index = Some i\<rparr>)
                       (minimax (b[i := Some cur]) (if cur = bs then hs else bs) bs hs (d + 1)))
                     (getAvailableMoves b)) = Some (moveRecords b cur bs hs d)"
      unfolding moveRecords_def childScore_def
      by (rule those_map_option) (rule ih)
    from False have "moveRecords b cur bs hs d \<noteq> []"
      by (simp add: moveRecords_def getAvailableMoves_nonempty)
    then obtain m ms where "moveRecords b cur bs hs d = m # ms"
      by (cases "moveRecords b cur bs hs d") auto
    with False th show ?thesis
      by (simp add: minimax.simps [of b cur bs hs d] Let_def)
  qed
qed

lemma minimax_nonterminal:
  assumes "getWinner b \<noteq> Some bs" and "getWinner b \<noteq> Some hs" and "\<not> everyFilled b"
  shows "minimax b cur bs hs d =
     (if cur = bs
      then reduce (\<lambda>best move. if mm_score move > mm_score best then move else best)
             (moveRecords b cur bs hs d)
      else reduce (\<lambda>best move. if mm_score move < mm_score best then move else best)
             (moveRecords b cur bs hs d))"
proof -
  have "minimax (b[i := Some cur]) (if cur = bs then hs else bs) bs hs (d + 1) \<noteq> None" for i
    using minimax_total [of "b[i := Some cur]" "if cur = bs then hs else bs" bs hs "d + 1"]
    by auto
  then have th: "those (map (\<lambda>i. map_option (\<lambda>res. \<lparr>mm_score = mm_score res, mm_index = Some i\<rparr>)
                       (minimax (b[i := Some cur]) (if cur = bs then hs else bs) bs hs (d + 1)))
                     (getAvailableMoves b)) = Some (moveRecords b cur bs hs d)"
    unfolding moveRecords_def childScore_def
    by (intro those_map_option)
  with assms show ?thesis
    by (simp add: minimax.simps [of b cur bs hs d] Let_def)
qed

lemma minimax_choice:
  assumes "getWinner b \<noteq> Some bs" and "getWinner b \<noteq> Some hs" and "\<not> everyFilled b"
  shows "\<exists>i. i \<in> set (getAvailableMoves b)
      \<and> minimax b cur bs hs d = Some \<lparr>mm_score = childScore b cur bs hs d i, mm_index = Some i\<rparr>
      \<and> (\<forall>j\<in>set (getAvailableMoves b).
            (if cur = bs then childScore b cur bs hs d j \<le> childScore b cur bs hs d i
             else childScore b cur bs hs d i \<le> childScore b cur bs hs d j)
            \<and> (childScore b cur bs hs d j = childScore b cur bs hs d i \<longrightarrow> i \<le> j))"
proof -
  let ?cs = "childScore b cur bs hs d"
  let ?g = "\<lambda>i. \<lparr>mm_score = ?cs i, mm_index = Some i\<rparr>"
  let ?idx = "\<lambda>m. the (mm_index m)"
  from assms(3) obtain a as where av: "getAvailableMoves b = a # as"
    using getAvailableMoves_nonempty [of b] by (cases "getAvailableMoves b") auto
  then have mr: "moveRecords b cur bs hs d = ?g a # map ?g as"
    by (simp add: moveRecords_def)
  have srt: "sorted_wrt (<) (map ?idx (?g a # map ?g as))"
    using getAvailableMoves_sorted [of b] by (simp add: av comp_def)
  have pick: "\<exists>i. i \<in> set (a # as) \<and> foldl (\<lambda>best move. if key move > key best then move else best) (?g a) (map ?g as) = ?g i
      \<and> (\<forall>j\<in>set (a # as). key (?g j) \<le> key (?g i) \<and> (key (?g j) = key (?g i) \<longrightarrow> i \<le> j))"
    for key :: "mm_result \<Rightarrow> int"
  proof -
    let ?r = "foldl (\<lambda>best move. if key move > key best then move else best) (?g a) (map ?g as)"
    from foldl_first_best [OF srt, of key]
    have r: "?r \<in> set (?g a # map ?g as)"
      and b: "\<And>m. m \<in> set (?g a # map ?g as) \<Longrightarrow> key m \<le> key ?r"
      and t: "\<And>m. m \<in> set (?g a # map ?g as) \<Longrightarrow> key m = key ?r \<Longrightarrow> ?idx ?r \<le> ?idx m"
      by blast+
    from r obtain i where i: "i \<in> set (a # as)" "?r = ?g i" by auto
    have "key (?g j) \<le> key (?g i) \<and> (key (?g j) = key (?g i) \<longrightarrow> i \<le> j)" if "j \<in> set (a # as)" for j
    proof -
      from that have "?g j \<in> set (?g a # map ?g as)" by auto
      from b [OF this] t [OF this] show ?thesis by (simp add: i(2))
    qed
    with i show ?thesis by blast
  qed
  show ?thesis
  proof (cases "cur = bs")
    case True
    from pick [of mm_score] obtain i where "i \<in> set (a # as)"
      "foldl (\<lambda>best move. if mm_score move > mm_score best then move else best) (?g a) (map ?g as) = ?g i"
      "\<forall>j\<in>set (a # as). ?cs j \<le> ?cs i \<and> (?cs j = ?cs i \<longrightarrow> i \<le> j)"
      by auto
    moreover have "minimax b cur bs hs d =
        Some (foldl (\<lambda>best move. if mm_score move > mm_score best then move else best) (?g a) (map ?g as))"
      unfolding minimax_nonterminal [OF assms] mr by (simp add: True)
    ultimately show ?thesis
      using True unfolding av by auto
  next
    case False
    from pick [of "\<lambda>m. - mm_score m"] obtain i where "i \<in> set (a # as)"
      "foldl (\<lambda>best move. if mm_score move < mm_score best then move else best) (?g a) (map ?g as) = ?g i"
      "\<forall>j\<in>set (a # as). ?cs i \<le> ?cs j \<and> (?cs j = ?cs i \<longrightarrow> i \<le> j)"
      by auto
    moreover have "minimax b cur bs hs d =
        Some (foldl (\<lambda>best move. if mm_score move < mm_score best then move else best) (?g a) (map ?g as))"
      unfolding minimax_nonterminal [OF assms] mr by (simp add: False)
    ultimately show ?thesis
      using False unfolding av by auto
  qed
qed

text \<open>A symbol occupies a win-line of the board: the words of the specification.\<close>

definition holdsLine :: "cell list \<Rightarrow> sym \<Rightarrow> bool" where
  "holdsLine b s =
     list_ex (\<lambda>(x, y, z). cellAt b x = Some s \<and> cellAt b y = Some s \<and> cellAt b z = Some s) winLines"

lemma firstLine_Some:
  "firstLine b ls = Some s \<Longrightarrow>
     list_ex (\<lambda>(x, y, z). cellAt b x = Some s \<and> cellAt b y = Some s \<and> cellAt b z = Some s) ls"
  by (induction b ls rule: firstLine.induct) (auto split: if_splits)

lemma firstLine_None:
  "firstLine b ls = None \<Longrightarrow>
     \<not> list_ex (\<lambda>(x, y, z). cellAt b x = Some s \<and> cellAt b y = Some s \<and> cellAt b z = Some s) ls"
  by (induction b ls rule: firstLine.induct) (auto split: if_splits)

lemma other_cases: "t = s \<or> t = other s"
  by (cases t; cases s) (simp_all add: other_def)

lemma other_neq [simp]: "other s \<noteq> s" "s \<noteq> other s"
  by (cases s; simp add: other_def)+

lemma other_other [simp]: "other (other s) = s"
  by (cases s) (simp_all add: other_def)

lemma getWinner_holdsLine:
  "getWinner b = Some s \<Longrightarrow> holdsLine b s"
  "getWinner b = None \<Longrightarrow> \<not> holdsLine b s"
  unfolding getWinner_def holdsLine_def by (rule firstLine_Some, assumption) (rule firstLine_None)

lemma getWinner_only_line:
  assumes "holdsLine b s" and "\<not> holdsLine b (other s)"
  shows "getWinner b = Some s"
proof (cases "getWinner b")
  case None
  with assms(1) show ?thesis by (simp add: getWinner_holdsLine)
next
  case (Some t)
  then have "holdsLine b t" by (rule getWinner_holdsLine)
  with assms(2) other_cases [of t s] Some show ?thesis by auto
qed

lemma other_if: "(if s = SymX then SymO else SymX) = other s"
  by (simp add: other_def)

text \<open>
  C9. When the engine is invoked as \<open>maybeBotMove\<close> invokes it (a board of 9
  cells, mode BotMatch, the turn is the bot symbol's, the outcome fields freshly
  evaluated from the board and undecided), at least one cell is empty, so the branch
  returning \<^verbatim>\<open>null\<close> is not taken: under either difficulty, and whatever the random
  draw, \<open>getBotMove\<close> returns the index of a cell below 9 that is empty, and
  \<open>maybeBotMove\<close> plays it.
\<close>

theorem getBotMove_empty_cell:
  assumes "length (board r) = 9" and "mode r = BotMode" and "botSymbol r = Some (turn r)"
    and "winner r = getWinner (board r)"
    and "isDraw r = (getWinner (board r) = None \<and> everyFilled (board r))"
    and "winner r = None" and "\<not> isDraw r"
  shows "getAvailableMoves (board r) \<noteq> []
    \<and> (\<exists>i. getBotMove r rnd = Some i \<and> i < 9 \<and> board r ! i = None
          \<and> maybeBotMove r rid rnd =
              (applyMove r (turn r) (of_nat i),
               [Broadcast rid (getState (applyMove r (turn r) (of_nat i)))], True))"
proof -
  from assms have gw: "getWinner (board r) = None" and nf: "\<not> everyFilled (board r)"
    by simp_all
  from nf have ne: "getAvailableMoves (board r) \<noteq> []"
    by (rule getAvailableMoves_nonempty)
  have "\<exists>i. getBotMove r rnd = Some i \<and> i \<in> set (getAvailableMoves (board r))"
  proof (cases "difficulty r")
    case Easy
    from ne have "rnd mod length (getAvailableMoves (board r)) < length (getAvailableMoves (board r))"
      by simp
    then have "getAvailableMoves (board r) ! (rnd mod length (getAvailableMoves (board r)))
        \<in> set (getAvailableMoves (board r))"
      by (rule nth_mem)
    with ne Easy show ?thesis by (simp add: getBotMove_def Let_def)
  next
    case Hard
    from gw have "getWinner (board r) \<noteq> Some (turn r)" "getWinner (board r) \<noteq> Some (other (turn r))"
      by simp_all
    from minimax_choice [OF this nf, of "turn r" 0]
    obtain i where "i \<in> set (getAvailableMoves (board r))"
      "minimax (board r) (turn r) (turn r) (other (turn r)) 0 =
         Some \<lparr>mm_score = childScore (board r) (turn r) (turn r) (other (turn r)) 0 i, mm_index = Some i\<rparr>"
      by blast
    with ne Hard assms(3) show ?thesis by (simp add: getBotMove_def other_if)
  qed
  then obtain i where i: "getBotMove r rnd = Some i" "i \<in> set (getAvailableMoves (board r))"
    by blast
  from i(2) assms(1) have "i < 9" "board r ! i = None"
    by (simp_all add: getAvailableMoves_iff)
  moreover have "maybeBotMove r rid rnd =
      (applyMove r (turn r) (of_nat i), [Broadcast rid (getState (applyMove r (turn r) (of_nat i)))], True)"
    using assms i(1) by (simp add: maybeBotMove_def Let_def)
  ultimately show ?thesis using ne i(1) by simp
qed

theorem getBotMove_empty_cell_witness:
  "(let r = (ensureBot (resetRoom (createRoom (lit ''r''))) SymO Hard)
              \<lparr>board := [Some SymX, Some SymO, Some SymX, Some SymX, Some SymO, Some SymO, Some SymO,
                         Some SymX, None], turn := SymO\<rparr>
    in length (board r) = 9 \<and> mode r = BotMode \<and> botSymbol r = Some (turn r)
       \<and> winner r = getWinner (board r)
       \<and> isDraw r = (getWinner (board r) = None \<and> everyFilled (board r))
       \<and> winner r = None \<and> \<not> isDraw r
       \<and> getBotMove r 0 = Some 8)"
proof -
  define r where "r = (ensureBot (resetRoom (createRoom (lit ''r''))) SymO Hard)
      \<lparr>board := [Some SymX, Some SymO, Some SymX, Some SymX, Some SymO, Some SymO, Some SymO,
                 Some SymX, None], turn := SymO\<rparr>"
  have b: "board r = [Some SymX, Some SymO, Some SymX, Some SymX, Some SymO, Some SymO, Some SymO,
                 Some SymX, None]"
    by (simp add: r_def)
  have g: "getWinner (board r) = None" "\<not> everyFilled (board r)"
    by (simp_all add: b getWinner_def winLines_def cellAt_def everyFilled_def)
  have h: "length (board r) = 9" "mode r = BotMode" "botSymbol r = Some (turn r)"
    "winner r = getWinner (board r)"
    "isDraw r = (getWinner (board r) = None \<and> everyFilled (board r))"
    "winner r = None" "\<not> isDraw r"
    using g by (simp_all add: r_def ensureBot_def resetRoom_def createRoom_def)
  have av: "getAvailableMoves (board r) = [8]" unfolding b by code_simp
  from getBotMove_empty_cell [OF h, of 0 "lit ''r''"]
  obtain i where "getBotMove r 0 = Some i" "i < 9" "board r ! i = None" by blast
  moreover from this have "i \<in> set (getAvailableMoves (board r))"
    using h(1) by (simp add: getAvailableMoves_iff)
  ultimately have "getBotMove r 0 = Some 8" by (simp add: av)
  with h show ?thesis unfolding r_def Let_def by blast
qed

section \<open>Positions the bot need not lose\<close>

text \<open>
  \<open>nolose bs cur b\<close>: on board \<open>b\<close> with \<open>cur\<close> to move, the side playing \<open>bs\<close> can
  avoid defeat whatever the other side plays: the board is won by \<open>bs\<close>, or full with
  no winner, or (with \<open>bs\<close> to move) some move leads to such a position, or (with the
  other side to move) every move does.
\<close>

function nolose :: "sym \<Rightarrow> sym \<Rightarrow> cell list \<Rightarrow> bool" where
  "nolose bs cur b =
     (case getWinner b of
        Some w \<Rightarrow> w = bs
      | None \<Rightarrow>
          everyFilled b \<or>
          (if cur = bs
           then (\<exists>i\<in>set (getAvailableMoves b). nolose bs (other cur) (b[i := Some cur]))
           else (\<forall>i\<in>set (getAvailableMoves b). nolose bs (other cur) (b[i := Some cur]))))"
  by pat_completeness auto
termination
  by (relation "measure (\<lambda>(bs, cur, b). emptyCount b)")
     (auto simp: getAvailableMoves_iff emptyCount_update)

declare nolose.simps [simp del]

lemma nolose_winner: "getWinner b = Some w \<Longrightarrow> nolose bs cur b = (w = bs)"
  by (simp add: nolose.simps [of bs cur b])

lemma nolose_full: "getWinner b = None \<Longrightarrow> everyFilled b \<Longrightarrow> nolose bs cur b"
  by (simp add: nolose.simps [of bs cur b])

lemma nolose_bot:
  "getWinner b = None \<Longrightarrow> \<not> everyFilled b \<Longrightarrow>
     nolose bs bs b = (\<exists>i\<in>set (getAvailableMoves b). nolose bs (other bs) (b[i := Some bs]))"
  by (simp add: nolose.simps [of bs bs b])

lemma nolose_human:
  "getWinner b = None \<Longrightarrow> \<not> everyFilled b \<Longrightarrow>
     nolose bs (other bs) b = (\<forall>i\<in>set (getAvailableMoves b). nolose bs bs (b[i := Some (other bs)]))"
  by (simp add: nolose.simps [of bs "other bs" b])

lemma nolose_not_lost: "nolose bs cur b \<Longrightarrow> getWinner b \<noteq> Some (other bs)"
  by (auto simp: nolose_winner)

lemma emptyCount_child:
  "i \<in> set (getAvailableMoves b) \<Longrightarrow> emptyCount (b[i := Some s]) < emptyCount b"
  by (simp add: getAvailableMoves_iff emptyCount_update)

text \<open>The sign of the score tells whether the bot can be made to lose.\<close>

lemma minimax_sign:
  "d + int (emptyCount b) \<le> 9 \<Longrightarrow> 0 \<le> d \<Longrightarrow> minimax b cur bs (other bs) d = Some r \<Longrightarrow>
     (0 \<le> mm_score r) = nolose bs cur b"
proof (induction "emptyCount b" arbitrary: b cur d r rule: less_induct)
  case less
  have nxt: "(if cur = bs then other bs else bs) = other cur"
    using other_cases [of cur bs] by auto
  show ?case
  proof (cases "getWinner b")
    case (Some w)
    show ?thesis
    proof (cases "w = bs")
      case True
      with Some less.prems show ?thesis
        by (auto simp: minimax_terminal nolose_winner)
    next
      case False
      with other_cases [of w bs] have w: "w = other bs" by simp
      with Some less.prems show ?thesis
        by (auto simp: minimax_terminal nolose_winner)
    qed
  next
    case None
    show ?thesis
    proof (cases "everyFilled b")
      case True
      with None less.prems show ?thesis
        by (auto simp: minimax_terminal nolose_full)
    next
      case False
      let ?cs = "childScore b cur bs (other bs) d"
      from None have nw: "getWinner b \<noteq> Some bs" "getWinner b \<noteq> Some (other bs)" by simp_all
      from minimax_choice [OF nw False, of cur d]
      obtain i where i1: "i \<in> set (getAvailableMoves b)"
        and i2: "minimax b cur bs (other bs) d = Some \<lparr>mm_score = ?cs i, mm_index = Some i\<rparr>"
        and i3: "\<forall>j\<in>set (getAvailableMoves b).
            (if cur = bs then ?cs j \<le> ?cs i else ?cs i \<le> ?cs j)
            \<and> (?cs j = ?cs i \<longrightarrow> i \<le> j)"
        by blast
      from i2 less.prems(3) have "r = \<lparr>mm_score = ?cs i, mm_index = Some i\<rparr>" by simp
      then have "mm_score r = ?cs i" by simp
      note i = i1 this
      have opt: "(if cur = bs then ?cs j \<le> ?cs i else ?cs i \<le> ?cs j)"
        if "j \<in> set (getAvailableMoves b)" for j
        using i3 that by blast
      have child: "(0 \<le> ?cs j) = nolose bs (other cur) (b[j := Some cur])"
        if j: "j \<in> set (getAvailableMoves b)" for j
      proof -
        from minimax_total [of "b[j := Some cur]" "other cur" bs "other bs" "d + 1"]
        obtain r' where r': "minimax (b[j := Some cur]) (other cur) bs (other bs) (d + 1) = Some r'"
          by blast
        have lt: "emptyCount (b[j := Some cur]) < emptyCount b"
          using j by (rule emptyCount_child)
        with less.prems have "d + 1 + int (emptyCount (b[j := Some cur])) \<le> 9" "0 \<le> d + 1"
          by simp_all
        from less.hyps [OF lt this r'] r' show ?thesis
          by (simp add: childScore_def nxt)
      qed
      show ?thesis
      proof (cases "cur = bs")
        case True
        have "(0 \<le> ?cs i) = (\<exists>j\<in>set (getAvailableMoves b). 0 \<le> ?cs j)"
          using i(1) opt True by (auto intro: order_trans)
        also have "\<dots> = (\<exists>j\<in>set (getAvailableMoves b). nolose bs (other cur) (b[j := Some cur]))"
          using child by simp
        also have "\<dots> = nolose bs cur b"
          using None False True by (simp add: nolose_bot)
        finally show ?thesis by (simp add: i(2))
      next
        case False
        with other_cases [of cur bs] have c: "cur = other bs" by simp
        have "(0 \<le> ?cs i) = (\<forall>j\<in>set (getAvailableMoves b). 0 \<le> ?cs j)"
          using i(1) opt False by (auto intro: order_trans)
        also have "\<dots> = (\<forall>j\<in>set (getAvailableMoves b). nolose bs (other cur) (b[j := Some cur]))"
          using child by simp
        also have "\<dots> = nolose bs cur b"
          using None \<open>\<not> everyFilled b\<close> c by (simp add: nolose_human)
        finally show ?thesis by (simp add: i(2))
      qed
    qed
  qed
qed

text \<open>From a position it need not lose, the move minimax picks keeps it that way.\<close>

lemma minimax_move_safe:
  assumes "nolose bs bs b" and "getWinner b = None" and "\<not> everyFilled b"
    and "emptyCount b \<le> 9"
  shows "\<exists>i sc. minimax b bs bs (other bs) 0 = Some \<lparr>mm_score = sc, mm_index = Some i\<rparr>
      \<and> i \<in> set (getAvailableMoves b) \<and> nolose bs (other bs) (b[i := Some bs])"
proof -
  from assms(2) have nw: "getWinner b \<noteq> Some bs" "getWinner b \<noteq> Some (other bs)" by simp_all
  from minimax_choice [OF nw assms(3), of bs 0]
  obtain i where i: "i \<in> set (getAvailableMoves b)"
    "minimax b bs bs (other bs) 0 =
       Some \<lparr>mm_score = childScore b bs bs (other bs) 0 i, mm_index = Some i\<rparr>"
    by blast
  from minimax_sign [OF _ _ i(2)] assms(1,4) have pos: "0 \<le> childScore b bs bs (other bs) 0 i"
    by simp
  from minimax_total [of "b[i := Some bs]" "other bs" bs "other bs" "0 + 1"]
  obtain r' where r': "minimax (b[i := Some bs]) (other bs) bs (other bs) (0 + 1) = Some r'"
    by blast
  have "emptyCount (b[i := Some bs]) < emptyCount b"
    using i(1) by (rule emptyCount_child)
  with assms(4) have "0 + 1 + int (emptyCount (b[i := Some bs])) \<le> 9" by simp
  from minimax_sign [OF this _ r'] pos r' have "nolose bs (other bs) (b[i := Some bs])"
    by (simp add: childScore_def)
  with i show ?thesis by blast
qed

text \<open>\<open>b'\<close> is \<open>b\<close> with some empty cells given to the bot symbol.\<close>

definition extends :: "sym \<Rightarrow> cell list \<Rightarrow> cell list \<Rightarrow> bool" where
  "extends bs b b' = list_all2 (\<lambda>c c'. c' = c \<or> (c = None \<and> c' = Some bs)) b b'"

lemma extends_length: "extends bs b b' \<Longrightarrow> length b' = length b"
  by (simp add: extends_def list_all2_lengthD)

lemma extends_nth:
  "extends bs b b' \<Longrightarrow> i < length b \<Longrightarrow> b' ! i = b ! i \<or> (b ! i = None \<and> b' ! i = Some bs)"
  by (auto simp: extends_def dest: list_all2_nthD)

lemma extends_refl: "extends bs b b"
  by (simp add: extends_def list_all2_refl)

lemma extends_cellAt:
  "extends bs b b' \<Longrightarrow> cellAt b' i = cellAt b i \<or> (cellAt b i = None \<and> cellAt b' i = Some bs)"
  using extends_nth [of bs b b' i] by (auto simp: cellAt_def extends_length)

lemma extends_update_both:
  "extends bs b b' \<Longrightarrow> extends bs (b[i := c]) (b'[i := c])"
  by (simp add: extends_def list_all2_update_cong)

lemma extends_give:
  "i < length b \<Longrightarrow> b ! i = None \<Longrightarrow> extends bs b (b[i := Some bs])"
  unfolding extends_def list_all2_conv_all_nth by (auto simp: nth_list_update)

lemma extends_iff_nth:
  "extends bs b b' \<longleftrightarrow>
     length b' = length b \<and> (\<forall>i<length b. b' ! i = b ! i \<or> (b ! i = None \<and> b' ! i = Some bs))"
  unfolding extends_def list_all2_conv_all_nth by auto

lemma extends_taken:
  assumes "extends bs b b'" and "i < length b" and "b ! i = None" and "b' ! i \<noteq> None"
  shows "extends bs (b[i := Some bs]) b'"
proof -
  from extends_nth [OF assms(1,2)] assms(3,4) have bi: "b' ! i = Some bs" by auto
  have "b' ! j = b[i := Some bs] ! j \<or> (b[i := Some bs] ! j = None \<and> b' ! j = Some bs)"
    if "j < length b" for j
  proof (cases "j = i")
    case True
    with bi that show ?thesis by simp
  next
    case False
    with extends_nth [OF assms(1) that] show ?thesis by simp
  qed
  with extends_length [OF assms(1)] show ?thesis
    by (simp add: extends_iff_nth)
qed

lemma extends_full: "extends bs b b' \<Longrightarrow> everyFilled b \<Longrightarrow> b' = b"
  unfolding extends_def everyFilled_def
  by (induction b b' rule: list_all2_induct) auto

lemma extends_emptyCount: "extends bs b b' \<Longrightarrow> emptyCount b' \<le> emptyCount b"
  unfolding extends_def emptyCount_def
  by (induction b b' rule: list_all2_induct) auto

lemma extends_emptyCount_less:
  "extends bs b b' \<Longrightarrow> i < length b \<Longrightarrow> b ! i = None \<Longrightarrow> b' ! i \<noteq> None \<Longrightarrow>
     emptyCount b' < emptyCount b"
proof -
  assume e: "extends bs b b'" and i: "i < length b" "b ! i = None" "b' ! i \<noteq> None"
  from e i have "extends bs (b[i := Some bs]) b'" by (rule extends_taken)
  then have "emptyCount b' \<le> emptyCount (b[i := Some bs])" by (rule extends_emptyCount)
  also have "\<dots> < emptyCount b" using i(1,2) by (rule emptyCount_update)
  finally show ?thesis .
qed

lemma extends_line_kept:
  assumes "extends bs b b'" and "cellAt b x = Some v"
  shows "cellAt b' x = Some v"
  using extends_cellAt [OF assms(1), of x] assms(2) by auto

lemma extends_line_other:
  assumes "extends bs b b'" and "cellAt b' x = Some (other bs)"
  shows "cellAt b x = Some (other bs)"
  using extends_cellAt [OF assms(1), of x] assms(2) by auto

lemma firstLine_complete:
  "cellAt b x = Some v \<Longrightarrow> cellAt b y = Some v \<Longrightarrow> cellAt b z = Some v \<Longrightarrow>
     firstLine b ((x, y, z) # ls) = Some v"
  by simp

lemma firstLine_incomplete:
  "\<not> (\<exists>v. cellAt b x = Some v \<and> cellAt b y = Some v \<and> cellAt b z = Some v) \<Longrightarrow>
     firstLine b ((x, y, z) # ls) = firstLine b ls"
  by auto

lemma extends_firstLine_other:
  "extends bs b b' \<Longrightarrow> firstLine b' ls = Some (other bs) \<Longrightarrow> firstLine b ls = Some (other bs)"
proof (induction ls)
  case Nil
  then show ?case by simp
next
  case (Cons l ls)
  obtain x y z where l: "l = (x, y, z)" by (cases l) auto
  show ?case
  proof (cases "\<exists>v. cellAt b' x = Some v \<and> cellAt b' y = Some v \<and> cellAt b' z = Some v")
    case True
    then obtain v where v: "cellAt b' x = Some v" "cellAt b' y = Some v" "cellAt b' z = Some v"
      by blast
    from firstLine_complete [OF v, of ls] Cons.prems(2) have "v = other bs" by (simp add: l)
    with v have "cellAt b x = Some (other bs)" "cellAt b y = Some (other bs)"
      "cellAt b z = Some (other bs)"
      by (simp_all add: extends_line_other [OF Cons.prems(1)])
    then show ?thesis unfolding l by (rule firstLine_complete)
  next
    case False
    from firstLine_incomplete [OF False, of ls] Cons.prems(2)
    have "firstLine b' ls = Some (other bs)" by (simp add: l)
    with Cons.prems(1) have ih: "firstLine b ls = Some (other bs)" by (rule Cons.IH)
    have "\<not> (\<exists>v. cellAt b x = Some v \<and> cellAt b y = Some v \<and> cellAt b z = Some v)"
    proof
      assume "\<exists>v. cellAt b x = Some v \<and> cellAt b y = Some v \<and> cellAt b z = Some v"
      then obtain v where "cellAt b x = Some v" "cellAt b y = Some v" "cellAt b z = Some v"
        by blast
      then have "cellAt b' x = Some v \<and> cellAt b' y = Some v \<and> cellAt b' z = Some v"
        by (simp add: extends_line_kept [OF Cons.prems(1)])
      with False show False by blast
    qed
    from firstLine_incomplete [OF this, of ls] ih show ?thesis by (simp add: l)
  qed
qed

lemma extends_firstLine_some:
  "extends bs b b' \<Longrightarrow> firstLine b ls \<noteq> None \<Longrightarrow> firstLine b' ls \<noteq> None"
proof (induction ls)
  case Nil
  then show ?case by simp
next
  case (Cons l ls)
  obtain x y z where l: "l = (x, y, z)" by (cases l) auto
  show ?case
  proof (cases "\<exists>v. cellAt b x = Some v \<and> cellAt b y = Some v \<and> cellAt b z = Some v")
    case True
    then obtain v where "cellAt b x = Some v" "cellAt b y = Some v" "cellAt b z = Some v"
      by blast
    then have "cellAt b' x = Some v" "cellAt b' y = Some v" "cellAt b' z = Some v"
      by (simp_all add: extends_line_kept [OF Cons.prems(1)])
    from firstLine_complete [OF this, of ls] show ?thesis by (simp add: l)
  next
    case False
    from firstLine_incomplete [OF False, of ls] Cons.prems(2)
    have "firstLine b ls \<noteq> None" by (simp add: l)
    with Cons.prems(1) have ih: "firstLine b' ls \<noteq> None" by (rule Cons.IH)
    show ?thesis
    proof (cases "\<exists>v. cellAt b' x = Some v \<and> cellAt b' y = Some v \<and> cellAt b' z = Some v")
      case True
      then obtain v where "cellAt b' x = Some v" "cellAt b' y = Some v" "cellAt b' z = Some v"
        by blast
      from firstLine_complete [OF this, of ls] show ?thesis by (simp add: l)
    next
      case False
      from firstLine_incomplete [OF False, of ls] ih show ?thesis by (simp add: l)
    qed
  qed
qed

lemma extends_winner_other:
  "extends bs b b' \<Longrightarrow> getWinner b' = Some (other bs) \<Longrightarrow> getWinner b = Some (other bs)"
  unfolding getWinner_def by (rule extends_firstLine_other)

lemma extends_winner_bot:
  assumes "extends bs b b'" and "getWinner b = Some bs"
  shows "getWinner b' = Some bs"
proof -
  from assms(2) have "firstLine b winLines \<noteq> None"
    by (simp add: getWinner_def)
  with assms(1) have "firstLine b' winLines \<noteq> None"
    by (rule extends_firstLine_some)
  then obtain w where w: "getWinner b' = Some w"
    by (auto simp: getWinner_def)
  have "w \<noteq> other bs"
  proof
    assume "w = other bs"
    with w have "getWinner b' = Some (other bs)" by simp
    with assms(1) have "getWinner b = Some (other bs)" by (rule extends_winner_other)
    with assms(2) show False by simp
  qed
  with other_cases [of w bs] w show ?thesis by simp
qed

lemma extends_avail:
  assumes "extends bs b b'" and "i \<in> set (getAvailableMoves b')"
  shows "i \<in> set (getAvailableMoves b)"
proof -
  from assms(2) have i: "i < length b'" "b' ! i = None" by (simp_all add: getAvailableMoves_iff)
  with extends_length [OF assms(1)] have "i < length b" by simp
  with extends_nth [OF assms(1) this] i show ?thesis by (auto simp: getAvailableMoves_iff)
qed

lemma nolose_extends_decided:
  assumes "extends bs b b'" and "nolose bs c b" and "getWinner b' = Some w"
  shows "nolose bs c' b'"
proof -
  have "w \<noteq> other bs"
  proof
    assume "w = other bs"
    with assms(3) have "getWinner b' = Some (other bs)" by simp
    with assms(1) have "getWinner b = Some (other bs)" by (rule extends_winner_other)
    with assms(2) show False by (simp add: nolose_winner)
  qed
  with other_cases [of w bs] have "w = bs" by simp
  with assms(3) show ?thesis by (simp add: nolose_winner)
qed

lemma nolose_extends_undecided:
  assumes "extends bs b b'" and "nolose bs c b" and "getWinner b' = None"
  shows "getWinner b = None"
proof (cases "getWinner b")
  case None
  then show ?thesis .
next
  case (Some w)
  with assms(2) have "getWinner b = Some bs" by (simp add: nolose_winner)
  with assms(1) have "getWinner b' = Some bs" by (rule extends_winner_bot)
  with assms(3) show ?thesis by simp
qed

text \<open>
  Extra marks of its own never hurt the bot, and neither does having the move: the
  three statements are proved together, by induction on the number of empty cells.
\<close>

lemma nolose_monotone:
  "(\<forall>b'. extends bs b b' \<longrightarrow> nolose bs (other bs) b \<longrightarrow> nolose bs (other bs) b')
   \<and> (\<forall>b'. extends bs b b' \<longrightarrow> nolose bs bs b \<longrightarrow> nolose bs bs b')
   \<and> (nolose bs (other bs) b \<longrightarrow> nolose bs bs b)"
proof (induction "emptyCount b" arbitrary: b rule: less_induct)
  case less
  have ih1: "nolose bs (other bs) c'"
    if "emptyCount c < emptyCount b" "extends bs c c'" "nolose bs (other bs) c" for c c'
    using less.hyps [OF that(1)] that(2,3) by blast
  have ih2: "nolose bs bs c'"
    if "emptyCount c < emptyCount b" "extends bs c c'" "nolose bs bs c" for c c'
    using less.hyps [OF that(1)] that(2,3) by blast
  have ih3: "nolose bs bs c"
    if "emptyCount c < emptyCount b" "nolose bs (other bs) c" for c
    using less.hyps [OF that(1)] that(2) by blast
  have one: "nolose bs (other bs) b'" if e: "extends bs b b'" and n: "nolose bs (other bs) b" for b'
  proof (cases "getWinner b'")
    case (Some w)
    with e n show ?thesis by (rule nolose_extends_decided)
  next
    case None
    with e n have gb: "getWinner b = None" by (rule nolose_extends_undecided)
    show ?thesis
    proof (cases "everyFilled b'")
      case True
      with None show ?thesis by (rule nolose_full)
    next
      case False
      have nf: "\<not> everyFilled b"
      proof
        assume "everyFilled b"
        with e have "b' = b" by (rule extends_full)
        with False \<open>everyFilled b\<close> show False by simp
      qed
      have "nolose bs bs (b'[i := Some (other bs)])" if i: "i \<in> set (getAvailableMoves b')" for i
      proof -
        from e i have ib: "i \<in> set (getAvailableMoves b)" by (rule extends_avail)
        with n gb nf have "nolose bs bs (b[i := Some (other bs)])" by (simp add: nolose_human)
        moreover have "emptyCount (b[i := Some (other bs)]) < emptyCount b"
          using ib by (rule emptyCount_child)
        moreover have "extends bs (b[i := Some (other bs)]) (b'[i := Some (other bs)])"
          using e by (rule extends_update_both)
        ultimately show ?thesis using ih2 by blast
      qed
      with None False show ?thesis by (simp add: nolose_human)
    qed
  qed
  have three: "nolose bs bs b" if n: "nolose bs (other bs) b"
  proof (cases "getWinner b")
    case (Some w)
    with n show ?thesis by (simp add: nolose_winner)
  next
    case None
    show ?thesis
    proof (cases "everyFilled b")
      case True
      with None show ?thesis by (rule nolose_full)
    next
      case False
      then have "getAvailableMoves b \<noteq> []" by (rule getAvailableMoves_nonempty)
      then obtain i where i: "i \<in> set (getAvailableMoves b)"
        by (cases "getAvailableMoves b") auto
      then have "extends bs b (b[i := Some bs])"
        by (simp add: getAvailableMoves_iff extends_give)
      from one [OF this n] i None False show ?thesis by (auto simp: nolose_bot)
    qed
  qed
  have two: "nolose bs bs b'" if e: "extends bs b b'" and n: "nolose bs bs b" for b'
  proof (cases "getWinner b'")
    case (Some w)
    with e n show ?thesis by (rule nolose_extends_decided)
  next
    case None
    with e n have gb: "getWinner b = None" by (rule nolose_extends_undecided)
    show ?thesis
    proof (cases "everyFilled b'")
      case True
      with None show ?thesis by (rule nolose_full)
    next
      case False
      have nf: "\<not> everyFilled b"
      proof
        assume "everyFilled b"
        with e have "b' = b" by (rule extends_full)
        with False \<open>everyFilled b\<close> show False by simp
      qed
      from n gb nf obtain i where i: "i \<in> set (getAvailableMoves b)"
        and ni: "nolose bs (other bs) (b[i := Some bs])"
        by (auto simp: nolose_bot)
      have lt: "emptyCount (b[i := Some bs]) < emptyCount b"
        using i by (rule emptyCount_child)
      from i have il: "i < length b" "b ! i = None" by (simp_all add: getAvailableMoves_iff)
      show ?thesis
      proof (cases "b' ! i = None")
        case True
        with il extends_length [OF e] have "i \<in> set (getAvailableMoves b')"
          by (simp add: getAvailableMoves_iff)
        moreover have "extends bs (b[i := Some bs]) (b'[i := Some bs])"
          using e by (rule extends_update_both)
        from ih1 [OF lt this ni] have "nolose bs (other bs) (b'[i := Some bs])" .
        ultimately show ?thesis using None False by (auto simp: nolose_bot)
      next
        case taken: False
        with e il have "extends bs (b[i := Some bs]) b'" by (intro extends_taken) simp_all
        from ih1 [OF lt this ni] have "nolose bs (other bs) b'" .
        moreover have "emptyCount b' < emptyCount b"
          using e il taken by (rule extends_emptyCount_less)
        ultimately show ?thesis by (intro ih3)
      qed
    qed
  qed
  from one two three show ?case by blast
qed

lemma nolose_extends: "extends bs b b' \<Longrightarrow> nolose bs (other bs) b \<Longrightarrow> nolose bs (other bs) b'"
  using nolose_monotone [of bs b] by blast

lemma nolose_tempo: "nolose bs (other bs) b \<Longrightarrow> nolose bs bs b"
  using nolose_monotone [of bs b] by blast

text \<open>
  A strategy for the side that moves second, as a tree: the reply to play, and below
  it one subtree for each cell the opponent may take next, in ascending order.
\<close>

datatype strategy = Reply nat "strategy list"

fun followsB :: "sym \<Rightarrow> cell list \<Rightarrow> strategy \<Rightarrow> bool"
  and followsH :: "sym \<Rightarrow> cell list \<Rightarrow> nat list \<Rightarrow> strategy list \<Rightarrow> bool" where
  "followsB bs b (Reply r ss) =
     (r < length b \<and> b ! r = None \<and>
      (case getWinner (b[r := Some bs]) of
         Some w \<Rightarrow> w = bs
       | None \<Rightarrow> everyFilled (b[r := Some bs])
                 \<or> followsH bs (b[r := Some bs]) (getAvailableMoves (b[r := Some bs])) ss))"
| "followsH bs b [] ss = True"
| "followsH bs b (m # ms) [] = False"
| "followsH bs b (m # ms) (s # ss) =
     ((case getWinner (b[m := Some (other bs)]) of
         Some w \<Rightarrow> w = bs
       | None \<Rightarrow> everyFilled (b[m := Some (other bs)]) \<or> followsB bs (b[m := Some (other bs)]) s)
      \<and> followsH bs b ms ss)"

definition drawStrategy :: "strategy list" where
  "drawStrategy =
     [Reply 4 [Reply 2 [Reply 6 [], Reply 6 [], Reply 3 [Reply 7 [Reply 0 []], Reply 5 [], Reply
     5 []], Reply 6 [], Reply 6 []], Reply 1 [Reply 7 [], Reply 7 [], Reply 7 [], Reply 3 [Reply
     8 [Reply 0 []], Reply 5 [], Reply 5 []], Reply 7 []], Reply 6 [Reply 2 [], Reply 1 [Reply 7
     [], Reply 5 [Reply 0 []], Reply 7 []], Reply 2 [], Reply 2 [], Reply 2 []], Reply 1 [Reply 7
     [], Reply 7 [], Reply 7 [], Reply 6 [Reply 8 [Reply 0 []], Reply 2 [], Reply 2 []], Reply 7
     []], Reply 3 [Reply 5 [], Reply 5 [], Reply 1 [Reply 7 [], Reply 8 [Reply 0 []], Reply 7
     []], Reply 5 [], Reply 5 []], Reply 3 [Reply 5 [], Reply 5 [], Reply 2 [Reply 6 [], Reply 8
     [Reply 0 []], Reply 6 []], Reply 5 [], Reply 5 []], Reply 1 [Reply 7 [], Reply 7 [], Reply 7
     [], Reply 7 [], Reply 6 [Reply 5 [Reply 0 []], Reply 2 [], Reply 2 []]]], Reply 4 [Reply 2
     [Reply 6 [], Reply 6 [], Reply 3 [Reply 7 [Reply 0 []], Reply 5 [], Reply 5 []], Reply 6 [],
     Reply 6 []], Reply 0 [Reply 8 [], Reply 8 [], Reply 8 [], Reply 8 [], Reply 5 [Reply 6
     [Reply 0 []], Reply 3 [], Reply 3 []]], Reply 0 [Reply 8 [], Reply 8 [], Reply 8 [], Reply 8
     [], Reply 2 [Reply 6 [], Reply 7 [Reply 0 []], Reply 6 []]], Reply 0 [Reply 8 [], Reply 8
     [], Reply 8 [], Reply 8 [], Reply 2 [Reply 6 [], Reply 7 [Reply 0 []], Reply 6 []]], Reply 3
     [Reply 5 [], Reply 5 [], Reply 8 [Reply 2 [Reply 0 []], Reply 0 [], Reply 0 []], Reply 5 [],
     Reply 5 []], Reply 0 [Reply 8 [], Reply 8 [], Reply 8 [], Reply 8 [], Reply 6 [Reply 3 [],
     Reply 2 [], Reply 2 []]], Reply 3 [Reply 5 [], Reply 5 [], Reply 2 [Reply 6 [], Reply 7
     [Reply 0 []], Reply 6 []], Reply 5 [], Reply 5 []]], Reply 4 [Reply 1 [Reply 7 [], Reply 7
     [], Reply 7 [], Reply 3 [Reply 8 [Reply 0 []], Reply 5 [], Reply 5 []], Reply 7 []], Reply 0
     [Reply 8 [], Reply 8 [], Reply 8 [], Reply 8 [], Reply 5 [Reply 6 [Reply 0 []], Reply 3 [],
     Reply 3 []]], Reply 1 [Reply 7 [], Reply 7 [], Reply 7 [], Reply 8 [Reply 6 [Reply 0 []],
     Reply 0 [], Reply 0 []], Reply 7 []], Reply 8 [Reply 1 [Reply 7 [], Reply 7 [], Reply 3
     [Reply 0 []]], Reply 0 [], Reply 0 [], Reply 0 [], Reply 0 []], Reply 1 [Reply 7 [], Reply 7
     [], Reply 7 [], Reply 8 [Reply 3 [Reply 0 []], Reply 0 [], Reply 0 []], Reply 7 []], Reply 3
     [Reply 5 [], Reply 5 [], Reply 8 [Reply 1 [Reply 0 []], Reply 0 [], Reply 0 []], Reply 5 [],
     Reply 5 []], Reply 5 [Reply 3 [], Reply 3 [], Reply 1 [Reply 7 [], Reply 7 [], Reply 6
     [Reply 0 []]], Reply 3 [], Reply 3 []]], Reply 4 [Reply 6 [Reply 2 [], Reply 1 [Reply 7 [],
     Reply 5 [Reply 0 []], Reply 7 []], Reply 2 [], Reply 2 [], Reply 2 []], Reply 0 [Reply 8 [],
     Reply 8 [], Reply 8 [], Reply 8 [], Reply 2 [Reply 6 [], Reply 7 [Reply 0 []], Reply 6 []]],
     Reply 1 [Reply 7 [], Reply 7 [], Reply 7 [], Reply 8 [Reply 6 [Reply 0 []], Reply 0 [],
     Reply 0 []], Reply 7 []], Reply 0 [Reply 8 [], Reply 8 [], Reply 8 [], Reply 8 [], Reply 2
     [Reply 6 [], Reply 1 [], Reply 1 []]], Reply 0 [Reply 8 [], Reply 8 [], Reply 8 [], Reply 8
     [], Reply 7 [Reply 2 [Reply 0 []], Reply 1 [], Reply 1 []]], Reply 0 [Reply 8 [], Reply 8
     [], Reply 8 [], Reply 8 [], Reply 6 [Reply 2 [], Reply 5 [Reply 0 []], Reply 2 []]], Reply 1
     [Reply 7 [], Reply 7 [], Reply 7 [], Reply 7 [], Reply 6 [Reply 2 [], Reply 5 [Reply 0 []],
     Reply 2 []]]], Reply 0 [Reply 7 [Reply 6 [Reply 8 [], Reply 3 [], Reply 3 []], Reply 5
     [Reply 6 [Reply 0 []], Reply 2 [Reply 0 []], Reply 2 [Reply 0 []]], Reply 3 [Reply 6 [],
     Reply 2 [Reply 0 []], Reply 6 []], Reply 2 [Reply 5 [Reply 0 []], Reply 3 [Reply 0 []],
     Reply 3 [Reply 0 []]], Reply 3 [Reply 6 [], Reply 6 [], Reply 2 [Reply 0 []]]], Reply 6
     [Reply 3 [], Reply 5 [Reply 7 [Reply 0 []], Reply 1 [Reply 0 []], Reply 1 [Reply 0 []]],
     Reply 3 [], Reply 3 [], Reply 3 []], Reply 5 [Reply 7 [Reply 6 [Reply 0 []], Reply 2 [Reply
     0 []], Reply 2 [Reply 0 []]], Reply 6 [Reply 7 [Reply 0 []], Reply 1 [Reply 0 []], Reply 1
     [Reply 0 []]], Reply 2 [Reply 8 [], Reply 1 [], Reply 1 []], Reply 1 [Reply 6 [Reply 0 []],
     Reply 2 [], Reply 2 []], Reply 1 [Reply 6 [Reply 0 []], Reply 2 [], Reply 2 []]], Reply 3
     [Reply 6 [], Reply 6 [], Reply 2 [Reply 7 [Reply 0 []], Reply 1 [], Reply 1 []], Reply 6 [],
     Reply 6 []], Reply 2 [Reply 7 [Reply 5 [Reply 0 []], Reply 3 [Reply 0 []], Reply 3 [Reply 0
     []]], Reply 1 [], Reply 1 [], Reply 1 [], Reply 1 []], Reply 1 [Reply 6 [Reply 5 [Reply 0
     []], Reply 3 [], Reply 3 []], Reply 2 [], Reply 2 [], Reply 2 [], Reply 2 []], Reply 2
     [Reply 7 [Reply 5 [Reply 0 []], Reply 3 [Reply 0 []], Reply 3 [Reply 0 []]], Reply 1 [],
     Reply 1 [], Reply 1 [], Reply 1 []]], Reply 4 [Reply 1 [Reply 7 [], Reply 7 [], Reply 7 [],
     Reply 6 [Reply 8 [Reply 0 []], Reply 2 [], Reply 2 []], Reply 7 []], Reply 0 [Reply 8 [],
     Reply 8 [], Reply 8 [], Reply 8 [], Reply 2 [Reply 6 [], Reply 7 [Reply 0 []], Reply 6 []]],
     Reply 8 [Reply 1 [Reply 7 [], Reply 7 [], Reply 3 [Reply 0 []]], Reply 0 [], Reply 0 [],
     Reply 0 [], Reply 0 []], Reply 0 [Reply 8 [], Reply 8 [], Reply 8 [], Reply 8 [], Reply 2
     [Reply 6 [], Reply 1 [], Reply 1 []]], Reply 1 [Reply 7 [], Reply 7 [], Reply 7 [], Reply 8
     [Reply 3 [Reply 0 []], Reply 0 [], Reply 0 []], Reply 7 []], Reply 2 [Reply 6 [], Reply 6
     [], Reply 6 [], Reply 8 [Reply 3 [Reply 0 []], Reply 0 [], Reply 0 []], Reply 6 []], Reply 2
     [Reply 6 [], Reply 6 [], Reply 6 [], Reply 7 [Reply 1 [], Reply 0 [Reply 0 []], Reply 1 []],
     Reply 6 []]], Reply 4 [Reply 3 [Reply 5 [], Reply 5 [], Reply 1 [Reply 7 [], Reply 8 [Reply
     0 []], Reply 7 []], Reply 5 [], Reply 5 []], Reply 3 [Reply 5 [], Reply 5 [], Reply 8 [Reply
     2 [Reply 0 []], Reply 0 [], Reply 0 []], Reply 5 [], Reply 5 []], Reply 1 [Reply 7 [], Reply
     7 [], Reply 7 [], Reply 8 [Reply 3 [Reply 0 []], Reply 0 [], Reply 0 []], Reply 7 []], Reply
     0 [Reply 8 [], Reply 8 [], Reply 8 [], Reply 8 [], Reply 7 [Reply 2 [Reply 0 []], Reply 1
     [], Reply 1 []]], Reply 1 [Reply 7 [], Reply 7 [], Reply 7 [], Reply 8 [Reply 3 [Reply 0
     []], Reply 0 [], Reply 0 []], Reply 7 []], Reply 8 [Reply 3 [Reply 5 [], Reply 5 [], Reply 1
     [Reply 0 []]], Reply 0 [], Reply 0 [], Reply 0 [], Reply 0 []], Reply 7 [Reply 1 [], Reply 3
     [Reply 5 [], Reply 5 [], Reply 2 [Reply 0 []]], Reply 1 [], Reply 1 [], Reply 1 []]], Reply
     4 [Reply 3 [Reply 5 [], Reply 5 [], Reply 2 [Reply 6 [], Reply 8 [Reply 0 []], Reply 6 []],
     Reply 5 [], Reply 5 []], Reply 0 [Reply 8 [], Reply 8 [], Reply 8 [], Reply 8 [], Reply 6
     [Reply 3 [], Reply 2 [], Reply 2 []]], Reply 3 [Reply 5 [], Reply 5 [], Reply 8 [Reply 1
     [Reply 0 []], Reply 0 [], Reply 0 []], Reply 5 [], Reply 5 []], Reply 0 [Reply 8 [], Reply 8
     [], Reply 8 [], Reply 8 [], Reply 6 [Reply 2 [], Reply 5 [Reply 0 []], Reply 2 []]], Reply 2
     [Reply 6 [], Reply 6 [], Reply 6 [], Reply 8 [Reply 3 [Reply 0 []], Reply 0 [], Reply 0 []],
     Reply 6 []], Reply 8 [Reply 3 [Reply 5 [], Reply 5 [], Reply 1 [Reply 0 []]], Reply 0 [],
     Reply 0 [], Reply 0 [], Reply 0 []], Reply 6 [Reply 2 [], Reply 2 [], Reply 5 [Reply 3 [],
     Reply 3 [], Reply 0 [Reply 0 []]], Reply 2 [], Reply 2 []]], Reply 4 [Reply 1 [Reply 7 [],
     Reply 7 [], Reply 7 [], Reply 7 [], Reply 6 [Reply 5 [Reply 0 []], Reply 2 [], Reply 2 []]],
     Reply 3 [Reply 5 [], Reply 5 [], Reply 2 [Reply 6 [], Reply 7 [Reply 0 []], Reply 6 []],
     Reply 5 [], Reply 5 []], Reply 5 [Reply 3 [], Reply 3 [], Reply 1 [Reply 7 [], Reply 7 [],
     Reply 6 [Reply 0 []]], Reply 3 [], Reply 3 []], Reply 1 [Reply 7 [], Reply 7 [], Reply 7 [],
     Reply 7 [], Reply 6 [Reply 2 [], Reply 5 [Reply 0 []], Reply 2 []]], Reply 2 [Reply 6 [],
     Reply 6 [], Reply 6 [], Reply 7 [Reply 1 [], Reply 0 [Reply 0 []], Reply 1 []], Reply 6 []],
     Reply 7 [Reply 1 [], Reply 3 [Reply 5 [], Reply 5 [], Reply 2 [Reply 0 []]], Reply 1 [],
     Reply 1 [], Reply 1 []], Reply 6 [Reply 2 [], Reply 2 [], Reply 5 [Reply 3 [], Reply 3 [],
     Reply 0 [Reply 0 []]], Reply 2 [], Reply 2 []]]]"

lemma follows_sound:
  "followsB bs b s \<Longrightarrow> getWinner b = None \<Longrightarrow> \<not> everyFilled b \<Longrightarrow> nolose bs bs b"
  "followsH bs b ms ss \<Longrightarrow> \<forall>m\<in>set ms. nolose bs bs (b[m := Some (other bs)])"
proof (induction bs b s and bs b ms ss rule: followsB_followsH.induct)
  case (1 bs b r ss)
  let ?b1 = "b[r := Some bs]"
  from "1.prems"(1) have r: "r \<in> set (getAvailableMoves b)"
    by (simp add: getAvailableMoves_iff)
  have "nolose bs (other bs) ?b1"
  proof (cases "getWinner ?b1")
    case (Some w)
    with "1.prems"(1) show ?thesis by (simp add: nolose_winner)
  next
    case None
    show ?thesis
    proof (cases "everyFilled ?b1")
      case True
      with None show ?thesis by (rule nolose_full)
    next
      case False
      with None "1.prems"(1) have "followsH bs ?b1 (getAvailableMoves ?b1) ss" by simp
      with None have "\<forall>m\<in>set (getAvailableMoves ?b1). nolose bs bs (?b1[m := Some (other bs)])"
        by (intro "1.IH") simp_all
      with None False show ?thesis by (simp add: nolose_human)
    qed
  qed
  with r "1.prems"(2,3) show ?case by (auto simp: nolose_bot)
next
  case (2 bs b ss)
  show ?case by simp
next
  case (3 bs b m ms)
  then show ?case by simp
next
  case (4 bs b m ms s ss)
  let ?b2 = "b[m := Some (other bs)]"
  have "nolose bs bs ?b2"
  proof (cases "getWinner ?b2")
    case (Some w)
    with "4.prems" show ?thesis by (simp add: nolose_winner)
  next
    case None
    show ?thesis
    proof (cases "everyFilled ?b2")
      case True
      with None show ?thesis by (rule nolose_full)
    next
      case False
      with None "4.prems" have "followsB bs ?b2 s" by simp
      with None False show ?thesis by (intro "4.IH"(1)) simp_all
    qed
  qed
  moreover from "4.prems" have "followsH bs b ms ss" by simp
  then have "\<forall>m\<in>set ms. nolose bs bs (b[m := Some (other bs)])" by (rule "4.IH"(2))
  ultimately show ?case by simp
qed

lemma emptyBoard_open:
  "getWinner emptyBoard = None" "\<not> everyFilled emptyBoard" "length emptyBoard = 9"
  "emptyCount emptyBoard = 9"
  by code_simp+

lemma drawStrategy_X: "followsH SymX emptyBoard (getAvailableMoves emptyBoard) drawStrategy"
  by code_simp

lemma drawStrategy_O: "followsH SymO emptyBoard (getAvailableMoves emptyBoard) drawStrategy"
  by code_simp

text \<open>Moving second on the empty board, neither symbol has to lose.\<close>

lemma nolose_emptyBoard: "nolose bs (other bs) emptyBoard"
proof -
  have "followsH bs emptyBoard (getAvailableMoves emptyBoard) drawStrategy"
    using drawStrategy_X drawStrategy_O by (cases bs) simp_all
  then have "\<forall>m\<in>set (getAvailableMoves emptyBoard). nolose bs bs (emptyBoard[m := Some (other bs)])"
    by (rule follows_sound(2))
  then show ?thesis by (simp add: nolose_human emptyBoard_open)
qed

section \<open>Invariants of the rooms\<close>

text \<open>What every stored room satisfies, and what holds between the two halves of a move.\<close>

definition roomBase :: "room \<Rightarrow> bool" where
  "roomBase r \<longleftrightarrow>
     length (board r) = 9 \<and> winner r = getWinner (board r)
     \<and> isDraw r = (getWinner (board r) = None \<and> everyFilled (board r))
     \<and> (mode r = BotMode \<longrightarrow> botSymbol r \<noteq> None)"

definition roomOk :: "room \<Rightarrow> bool" where
  "roomOk r \<longleftrightarrow>
     roomBase r
     \<and> (\<forall>bs. mode r = BotMode \<and> difficulty r = Hard \<and> botSymbol r = Some bs
           \<longrightarrow> nolose bs (other bs) (board r))"

definition roomMid :: "room \<Rightarrow> bool" where
  "roomMid r \<longleftrightarrow>
     roomBase r
     \<and> (\<forall>bs. mode r = BotMode \<and> difficulty r = Hard \<and> botSymbol r = Some bs
           \<longrightarrow> nolose bs (turn r) (board r))"

lemma nolose_any_turn: "nolose bs (other bs) b \<Longrightarrow> nolose bs c b"
  using other_cases [of c bs] by (auto intro: nolose_tempo)

lemma nolose_decided:
  "getWinner b \<noteq> None \<or> everyFilled b \<Longrightarrow> nolose bs c b = nolose bs c' b"
  by (cases "getWinner b") (auto simp: nolose_winner nolose_full)

lemma roomOk_Mid: "roomOk r \<Longrightarrow> roomMid r"
  by (auto simp: roomOk_def roomMid_def intro: nolose_any_turn)

lemma roomOk_createRoom: "roomOk (createRoom rid)"
  by (simp add: roomOk_def roomBase_def createRoom_def emptyBoard_open)

lemma roomOk_resetRoom: "roomBase r \<Longrightarrow> roomOk (resetRoom r)"
  by (auto simp: roomOk_def roomBase_def resetRoom_def emptyBoard_open nolose_emptyBoard)

lemma roomOk_ensureBot: "roomOk (ensureBot (resetRoom r) bs d)"
  by (auto simp: roomOk_def roomBase_def resetRoom_def ensureBot_def emptyBoard_open nolose_emptyBoard)

lemma roomOk_ensurePvp: "roomOk (ensurePvp (resetRoom r))"
  by (auto simp: roomOk_def roomBase_def resetRoom_def ensurePvp_def emptyBoard_open Let_def)

lemma roomOk_takeSeat: "roomOk r \<Longrightarrow> roomOk (takeSeat r sy sid name)"
  by (simp add: roomOk_def roomBase_def takeSeat_fields)

lemma roomOk_vacateSeat: "roomOk r \<Longrightarrow> roomOk (vacateSeat r sid)"
  by (auto simp: roomOk_def roomBase_def vacateSeat_def split: option.splits)

lemma emptyCount_le_length: "emptyCount b \<le> length b"
  by (simp add: emptyCount_def)

lemma getBotMove_available:
  assumes "getBotMove r rnd = Some i"
  shows "i \<in> set (getAvailableMoves (board r))"
proof (cases "getAvailableMoves (board r) = []")
  case True
  with assms show ?thesis by (simp add: getBotMove_def)
next
  case ne: False
  show ?thesis
  proof (cases "difficulty r")
    case Easy
    from ne have "getAvailableMoves (board r) ! (rnd mod length (getAvailableMoves (board r)))
        \<in> set (getAvailableMoves (board r))"
      by (intro nth_mem) simp
    with assms ne Easy show ?thesis by (simp add: getBotMove_def Let_def)
  next
    case Hard
    with assms ne obtain bs res where bs: "botSymbol r = Some bs"
      and m: "minimax (board r) bs bs (other bs) 0 = Some res" and ix: "mm_index res = Some i"
      by (auto simp: getBotMove_def Let_def other_if split: option.splits)
    show ?thesis
    proof (cases "getWinner (board r) = Some bs \<or> getWinner (board r) = Some (other bs)
        \<or> everyFilled (board r)")
      case True
      then have "mm_index res = None"
        using m by (cases "getWinner (board r) = Some bs"; cases "getWinner (board r) = Some (other bs)")
          (auto simp: minimax_terminal)
      with ix show ?thesis by simp
    next
      case False
      then have "getWinner (board r) \<noteq> Some bs" "getWinner (board r) \<noteq> Some (other bs)"
        "\<not> everyFilled (board r)"
        by simp_all
      from minimax_choice [OF this, of bs 0] m ix show ?thesis by auto
    qed
  qed
qed

lemma applyMove_cell:
  "i < length (board r) \<Longrightarrow> board (applyMove r s (of_nat i)) = (board r)[i := Some s]"
  by (simp add: applyMove_board writeCell_def)

lemma checkIndex_cell:
  assumes "checkIndex v = Some q" and "isArrayIndex q"
  shows "arrayIndex q < 9"
proof -
  from assms(1) have "q \<le> 8"
    by (auto simp: checkIndex_def split: jsval.splits if_splits)
  then have "\<lfloor>q\<rfloor> < 9" by (simp add: floor_less_iff)
  then show ?thesis unfolding arrayIndex_def by linarith
qed

lemma applyMove_board_accepted:
  assumes "length (board r) = 9" and "checkIndex v = Some q"
  shows "board (applyMove r s q) =
     (if isArrayIndex q then (board r)[arrayIndex q := Some s] else board r)"
  using assms checkIndex_cell [OF assms(2)] by (simp add: applyMove_board writeCell_def)

lemma roomBase_applyMove:
  assumes "roomBase r" and "checkIndex v = Some q"
  shows "roomBase (applyMove r s q)"
proof -
  from assms(1) have "length (board r) = 9" by (simp add: roomBase_def)
  from applyMove_board_accepted [OF this assms(2), of s] this
  have "length (board (applyMove r s q)) = 9" by (simp split: if_splits)
  with assms(1) show ?thesis
    by (simp add: roomBase_def applyMove_outcome applyMove_fields)
qed

lemma roomBase_maybeBotMove:
  assumes "roomBase r"
  shows "roomBase (fst (maybeBotMove r rid rnd))"
proof -
  from maybeBotMove_cases [of r rid rnd] show ?thesis
  proof
    assume "maybeBotMove r rid rnd = (r, [], False)"
    with assms show ?thesis by simp
  next
    assume "\<exists>i. botSymbol r = Some (turn r) \<and> mode r = BotMode \<and> winner r = None \<and> \<not> isDraw r
          \<and> getBotMove r rnd = Some i
          \<and> maybeBotMove r rid rnd =
              (applyMove r (turn r) (of_nat i),
               [Broadcast rid (getState (applyMove r (turn r) (of_nat i)))], True)"
    then obtain i where i: "getBotMove r rnd = Some i"
      and m: "maybeBotMove r rid rnd =
              (applyMove r (turn r) (of_nat i),
               [Broadcast rid (getState (applyMove r (turn r) (of_nat i)))], True)"
      by blast
    from getBotMove_available [OF i] assms have "i < 9"
      by (simp add: getAvailableMoves_iff roomBase_def)
    then have "checkIndex (JNumber (of_nat i)) = Some (of_nat i)"
      by (simp add: checkIndex_def)
    from roomBase_applyMove [OF assms this] m show ?thesis by simp
  qed
qed

lemma maybeBotMove_Ok:
  assumes "roomMid r"
  shows "roomOk (fst (maybeBotMove r rid rnd))"
proof -
  let ?r' = "fst (maybeBotMove r rid rnd)"
  from assms have base: "roomBase r" by (simp add: roomMid_def)
  then have base': "roomBase ?r'" by (rule roomBase_maybeBotMove)
  have "nolose bs (other bs) (board ?r')"
    if h: "mode ?r' = BotMode" "difficulty ?r' = Hard" "botSymbol ?r' = Some bs" for bs
  proof -
    from h have h0: "mode r = BotMode" "difficulty r = Hard" "botSymbol r = Some bs"
      by (simp_all add: maybeBotMove_fields)
    with assms have n: "nolose bs (turn r) (board r)" by (simp add: roomMid_def)
    show ?thesis
    proof (cases "bs = turn r \<and> winner r = None \<and> \<not> isDraw r")
      case False
      then have same: "maybeBotMove r rid rnd = (r, [], False)"
        using h0 by (auto simp: maybeBotMove_def)
      show ?thesis
      proof (cases "bs = turn r")
        case True
        with False base have "getWinner (board r) \<noteq> None \<or> everyFilled (board r)"
          by (auto simp: roomBase_def)
        from nolose_decided [OF this, of bs "turn r" "other bs"] n same show ?thesis by simp
      next
        case False
        with other_cases [of "turn r" bs] have "turn r = other bs" by simp
        with n same show ?thesis by simp
      qed
    next
      case True
      with base have open_b: "getWinner (board r) = None" "\<not> everyFilled (board r)"
        by (auto simp: roomBase_def)
      from base have "emptyCount (board r) \<le> 9"
        using emptyCount_le_length [of "board r"] by (simp add: roomBase_def)
      from minimax_move_safe [OF _ open_b this, of bs] n True
      obtain i sc where mm: "minimax (board r) bs bs (other bs) 0 = Some \<lparr>mm_score = sc, mm_index = Some i\<rparr>"
        and i: "i \<in> set (getAvailableMoves (board r))"
        and safe: "nolose bs (other bs) ((board r)[i := Some bs])"
        by auto
      from i have ne: "getAvailableMoves (board r) \<noteq> []" by auto
      from mm h0 ne have g: "getBotMove r rnd = Some i"
        by (simp add: getBotMove_def Let_def other_if)
      with True h0 have "maybeBotMove r rid rnd =
          (applyMove r bs (of_nat i), [Broadcast rid (getState (applyMove r bs (of_nat i)))], True)"
        by (simp add: maybeBotMove_def Let_def)
      moreover from i have "i < length (board r)" by (simp add: getAvailableMoves_iff)
      ultimately show ?thesis using safe by (simp add: applyMove_cell)
    qed
  qed
  with base' show ?thesis by (simp add: roomOk_def)
qed

lemma roomMid_applyMove:
  assumes base: "roomBase r" and und: "winner r = None" "\<not> isDraw r"
    and idx: "checkIndex v = Some q" and free: "boardGet r q = None"
    and safe: "\<And>bs. mode r = BotMode \<Longrightarrow> difficulty r = Hard \<Longrightarrow> botSymbol r = Some bs
        \<Longrightarrow> nolose bs (other bs) (board r)"
  shows "roomMid (applyMove r (turn r) q)"
proof -
  let ?r' = "applyMove r (turn r) q"
  from base idx have base': "roomBase ?r'" by (rule roomBase_applyMove)
  from base und have open_b: "getWinner (board r) = None" "\<not> everyFilled (board r)"
    and len: "length (board r) = 9"
    by (auto simp: roomBase_def)
  have "nolose bs (turn ?r') (board ?r')"
    if h: "mode ?r' = BotMode" "difficulty ?r' = Hard" "botSymbol ?r' = Some bs" for bs
  proof -
    from h have n: "nolose bs (other bs) (board r)"
      by (intro safe) (simp_all add: applyMove_fields)
    show ?thesis
    proof (cases "isArrayIndex q")
      case False
      with len idx have "board ?r' = board r" by (simp add: applyMove_board_accepted)
      with n show ?thesis by (simp add: nolose_any_turn)
    next
      case True
      let ?i = "arrayIndex q"
      from True len idx have b': "board ?r' = (board r)[?i := Some (turn r)]"
        by (simp add: applyMove_board_accepted)
      from checkIndex_cell [OF idx True] len have il: "?i < length (board r)" by simp
      with free True have ie: "board r ! ?i = None" by (simp add: boardGet_def cellAt_def)
      from il ie have av: "?i \<in> set (getAvailableMoves (board r))"
        by (simp add: getAvailableMoves_iff)
      show ?thesis
      proof (cases "turn r = bs")
        case True
        from il ie have "extends bs (board r) ((board r)[?i := Some bs])" by (rule extends_give)
        from nolose_extends [OF this n] have "nolose bs (other bs) (board ?r')"
          unfolding b' by (simp add: True)
        then show ?thesis by (rule nolose_any_turn)
      next
        case False
        with other_cases [of "turn r" bs] have t: "turn r = other bs" by simp
        from n open_b av have "nolose bs bs ((board r)[?i := Some (other bs)])"
          by (simp add: nolose_human)
        then have nb: "nolose bs bs (board ?r')"
          unfolding b' by (simp add: t)
        show ?thesis
        proof (cases "getWinner (board ?r') = None \<and> \<not> everyFilled (board ?r')")
          case True
          then have "turn ?r' = bs" by (simp add: applyMove_outcome t)
          with nb show ?thesis by simp
        next
          case False
          then have "getWinner (board ?r') \<noteq> None \<or> everyFilled (board ?r')" by simp
          from nolose_decided [OF this, of bs "turn ?r'" bs] nb show ?thesis by simp
        qed
      qed
    qed
  qed
  with base' show ?thesis by (simp add: roomMid_def)
qed

lemma roomMid_notBot: "roomMid r \<Longrightarrow> mode r \<noteq> BotMode \<Longrightarrow> roomOk r"
  by (simp add: roomMid_def roomOk_def)

lemma roomOk_afterMove:
  assumes "roomOk r" and "winner r = None" "\<not> isDraw r"
    and "checkIndex v = Some q" and "boardGet r q = None"
  shows "roomOk (fst (afterMove r (turn r) q rid rnd))"
proof -
  from assms have mid: "roomMid (applyMove r (turn r) q)"
    by (intro roomMid_applyMove) (auto simp: roomOk_def)
  show ?thesis
  proof (cases "mode (applyMove r (turn r) q) = BotMode")
    case True
    with maybeBotMove_Ok [OF mid, of rid rnd] show ?thesis by (simp add: afterMove_def)
  next
    case False
    with roomMid_notBot [OF mid] show ?thesis by (simp add: afterMove_def)
  qed
qed

text \<open>The room a join addresses, as \<open>getRoom\<close> hands it over.\<close>

definition joinedRoom :: "server \<Rightarrow> jstring \<Rightarrow> room" where
  "joinedRoom s roomId = (case rooms s roomId of Some r \<Rightarrow> r | None \<Rightarrow> createRoom roomId)"

lemma getRoom_joinedRoom:
  "fst (getRoom s roomId) = joinedRoom s roomId"
  "rooms (snd (getRoom s roomId)) = (rooms s)(roomId \<mapsto> joinedRoom s roomId)"
  "socks (snd (getRoom s roomId)) = socks s"
  by (auto simp: getRoom_def joinedRoom_def split: option.splits)

lemma rooms_putRoom [simp]: "rooms (putRoom s k r) = (rooms s)(k \<mapsto> r)"
  by (simp add: putRoom_def)

lemma rooms_bindSocket [simp]: "rooms (bindSocket s sid k sy n) = rooms s"
  by (simp add: bindSocket_def)

lemma joinHandler_rooms:
  fixes s sid payload ack rnd
  defines "roomId \<equiv> sanitizeStr (jp_roomId payload) (lit ''lobby'')"
    and "name \<equiv> sanitizeStr (jp_name payload) []"
    and "s' \<equiv> fst (joinHandler s sid payload ack rnd)"
  defines "room0 \<equiv> joinedRoom s roomId"
  shows "rooms s' = rooms s
    \<or> (hasHuman room0 \<and> rooms s' = (rooms s)(roomId \<mapsto> room0))
    \<or> (hasHuman room0 \<and> (\<exists>sy. rooms s' = (rooms s)(roomId \<mapsto> takeSeat room0 sy sid name)))
    \<or> (name \<noteq> [] \<and> \<not> hasHuman room0 \<and>
         (\<exists>bs d sy. rooms s' = (rooms s)(roomId \<mapsto>
             fst (maybeBotMove (takeSeat (ensureBot (resetRoom room0) bs d) sy sid name) roomId rnd))))
    \<or> (name \<noteq> [] \<and> \<not> hasHuman room0 \<and>
         (\<exists>sy. rooms s' = (rooms s)(roomId \<mapsto> takeSeat (ensurePvp (resetRoom room0)) sy sid name)))
    \<or> (name \<noteq> [] \<and> \<not> hasHuman room0 \<and> rooms s' = (rooms s)(roomId \<mapsto> ensurePvp (resetRoom room0)))"
proof -
  obtain r0 s1 where g: "getRoom s roomId = (r0, s1)" by (cases "getRoom s roomId")
  with getRoom_joinedRoom [of s roomId]
  have r0: "r0 = room0" and s1: "rooms s1 = (rooms s)(roomId \<mapsto> room0)"
    by (simp_all add: room0_def)
  show ?thesis
  proof (cases "name = []")
    case True
    then have "s' = s"
      by (simp add: s'_def joinHandler_def Let_def name_def)
    then show ?thesis by simp
  next
    case nm: False
    show ?thesis
    proof (cases "hasHuman room0")
      case hh: True
      show ?thesis
      proof (cases "mode room0 = normalizeMode (jp_mode payload)")
        case False
        with nm hh g r0 have "s' = s1"
          by (simp add: s'_def joinHandler_def Let_def name_def roomId_def)
        with s1 hh show ?thesis by simp
      next
        case mm: True
        show ?thesis
        proof (cases "normalizeMode (jp_mode payload)")
          case BotMode
          with nm hh g r0 mm have "s' = s1"
            by (simp add: s'_def joinHandler_def Let_def name_def roomId_def)
          with s1 hh show ?thesis by simp
        next
          case Pvp
          show ?thesis
          proof (cases "players room0 SymX = None \<or> players room0 SymO = None")
            case False
            with nm hh g r0 mm Pvp have "s' = putRoom s1 roomId room0"
              by (auto simp: s'_def joinHandler_def Let_def name_def roomId_def)
            with s1 hh show ?thesis by simp
          next
            case True
            with nm hh g r0 mm Pvp have "\<exists>sy. s' = bindSocket (putRoom s1 roomId (takeSeat room0 sy sid name)) sid roomId sy name"
              by (auto simp: s'_def joinHandler_def Let_def name_def roomId_def)
            with s1 hh show ?thesis by auto
          qed
        qed
      qed
    next
      case nh: False
      show ?thesis
      proof (cases "normalizeMode (jp_mode payload)")
        case BotMode
        with nm nh g r0 have "s' = bindSocket (putRoom s1 roomId
            (fst (maybeBotMove (takeSeat (ensureBot (resetRoom room0)
                (other (normalizeSymbol (jp_symbol payload)))
                (normalizeDifficulty (jp_difficulty payload)))
              (normalizeSymbol (jp_symbol payload)) sid name) roomId rnd)))
            sid roomId (normalizeSymbol (jp_symbol payload)) name"
          by (simp add: s'_def joinHandler_def Let_def name_def roomId_def case_prod_unfold other_if)
        then have "rooms s' = (rooms s)(roomId \<mapsto>
            fst (maybeBotMove (takeSeat (ensureBot (resetRoom room0)
                (other (normalizeSymbol (jp_symbol payload)))
                (normalizeDifficulty (jp_difficulty payload)))
              (normalizeSymbol (jp_symbol payload)) sid name) roomId rnd))"
          by (simp add: s1)
        with nm nh show ?thesis by blast
      next
        case Pvp
        let ?r1 = "ensurePvp (resetRoom room0)"
        show ?thesis
        proof (cases "players ?r1 SymX = None \<or> players ?r1 SymO = None")
          case False
          with nm nh g r0 Pvp have "s' = putRoom s1 roomId ?r1"
            by (auto simp: s'_def joinHandler_def Let_def name_def roomId_def)
          with s1 nm nh show ?thesis by simp
        next
          case True
          with nm nh g r0 Pvp have "\<exists>sy. s' = bindSocket (putRoom s1 roomId (takeSeat ?r1 sy sid name)) sid roomId sy name"
            by (auto simp: s'_def joinHandler_def Let_def name_def roomId_def)
          with s1 nm nh show ?thesis by auto
        qed
      qed
    qed
  qed
qed

lemma moveHandler_rooms:
  "rooms (fst (moveHandler s sid payload rnd)) = rooms s
   \<or> (\<exists>rid r q. rooms s rid = Some r \<and> winner r = None \<and> \<not> isDraw r
         \<and> checkIndex (mp_index payload) = Some q \<and> boardGet r q = None
         \<and> rooms (fst (moveHandler s sid payload rnd)) =
             (rooms s)(rid \<mapsto> fst (afterMove r (turn r) q rid rnd)))"
proof -
  let ?t = "sanitize (mp_roomId payload) (sd_roomId (socketData s sid))"
  consider (u) "roomsGet s ?t = None \<or> sd_symbol (socketData s sid) = None"
    | (r) rid r sy where "?t = Some rid" "rooms s rid = Some r" "sd_symbol (socketData s sid) = Some sy"
    by (cases ?t; cases "sd_symbol (socketData s sid)") (auto simp: roomsGet_def)
  then show ?thesis
  proof cases
    case u
    then show ?thesis by (simp add: moveHandler_unresolved)
  next
    case r
    show ?thesis
    proof (cases "turn r = sy \<and> winner r = None \<and> \<not> isDraw r \<and> indexInRange (mp_index payload)
        \<and> boardGet r (indexValue (mp_index payload)) = None")
      case False
      then have "fst (moveHandler s sid payload rnd) = s"
        by (auto simp: moveHandler_resolved [OF r])
      then show ?thesis by simp
    next
      case True
      then have "rooms (fst (moveHandler s sid payload rnd)) =
          (rooms s)(rid \<mapsto> fst (afterMove r (turn r) (indexValue (mp_index payload)) rid rnd))"
        by (simp add: moveHandler_resolved [OF r])
      moreover from True have "checkIndex (mp_index payload) = Some (indexValue (mp_index payload))"
        by (simp add: checkIndex_iff)
      ultimately show ?thesis using True r(2) by blast
    qed
  qed
qed

lemma resetHandler_unresolved:
  assumes "roomsGet s (sanitize v (sd_roomId (socketData s sid))) = None
      \<or> sd_symbol (socketData s sid) = None"
  shows "resetHandler s sid v rnd = (s, [PrivateError sid ''Join a room first.''])"
  using assms
  by (auto simp: resetHandler_def roomsGet_def Let_def split: option.splits)

lemma resetHandler_rooms:
  "(rooms (fst (resetHandler s sid v rnd)) = rooms s
      \<and> (roomsGet s (sanitize v (sd_roomId (socketData s sid))) = None
           \<or> sd_symbol (socketData s sid) = None))
   \<or> (\<exists>rid r. sanitize v (sd_roomId (socketData s sid)) = Some rid \<and> rooms s rid = Some r
         \<and> sd_symbol (socketData s sid) \<noteq> None
         \<and> rooms (fst (resetHandler s sid v rnd)) =
             (rooms s)(rid \<mapsto> fst (maybeBotMove (resetRoom r) rid rnd)))"
proof -
  let ?t = "sanitize v (sd_roomId (socketData s sid))"
  consider (u) "roomsGet s ?t = None \<or> sd_symbol (socketData s sid) = None"
    | (r) rid r sy where "?t = Some rid" "rooms s rid = Some r" "sd_symbol (socketData s sid) = Some sy"
    by (cases ?t; cases "sd_symbol (socketData s sid)") (auto simp: roomsGet_def)
  then show ?thesis
  proof cases
    case u
    then show ?thesis by (simp add: resetHandler_unresolved)
  next
    case r
    then show ?thesis by (simp add: resetHandler_honoured [OF r])
  qed
qed

lemma disconnectHandler_rooms:
  "(rooms (fst (disconnectHandler s sid)) = rooms s
      \<and> roomsGet s (sd_roomId (socketData s sid)) = None)
   \<or> (\<exists>rid r. sd_roomId (socketData s sid) = Some rid \<and> rooms s rid = Some r
         \<and> rooms (fst (disconnectHandler s sid)) =
             (rooms s)(rid \<mapsto> (if hasHuman (vacateSeat r sid) then vacateSeat r sid
                                else resetRoom (vacateSeat r sid))))"
proof (cases "roomsGet s (sd_roomId (socketData s sid))")
  case None
  then show ?thesis
    by (auto simp: disconnectHandler_def roomsGet_def Let_def split: option.splits)
next
  case (Some r)
  then obtain rid where "sd_roomId (socketData s sid) = Some rid" "rooms s rid = Some r"
    by (auto simp: roomsGet_def split: option.splits)
  then show ?thesis
    by (simp add: disconnectHandler_def roomsGet_def Let_def vacateSeat_def)
qed

definition allRoomsOk :: "server \<Rightarrow> bool" where
  "allRoomsOk s \<longleftrightarrow> (\<forall>k r. rooms s k = Some r \<longrightarrow> roomOk r)"

lemma allRoomsOk_upd:
  "allRoomsOk s \<Longrightarrow> rooms s' = (rooms s)(k \<mapsto> r) \<Longrightarrow> roomOk r \<Longrightarrow> allRoomsOk s'"
  by (simp add: allRoomsOk_def)

lemma allRoomsOk_same:
  "allRoomsOk s \<Longrightarrow> rooms s' = rooms s \<Longrightarrow> allRoomsOk s'"
  by (simp add: allRoomsOk_def)

lemma roomOk_joinedRoom: "allRoomsOk s \<Longrightarrow> roomOk (joinedRoom s k)"
  by (auto simp: allRoomsOk_def joinedRoom_def roomOk_createRoom split: option.splits)

lemma allRoomsOk_join:
  assumes "allRoomsOk s"
  shows "allRoomsOk (fst (joinHandler s sid payload ack rnd))"
proof -
  let ?k = "sanitizeStr (jp_roomId payload) (lit ''lobby'')"
  note r0 = roomOk_joinedRoom [OF assms, of ?k]
  have bot: "roomOk (fst (maybeBotMove (takeSeat (ensureBot (resetRoom (joinedRoom s ?k)) bs d) sy sid n) ?k rnd))"
    for bs d sy n
    by (intro maybeBotMove_Ok roomOk_Mid roomOk_takeSeat roomOk_ensureBot)
  from joinHandler_rooms [of s sid payload ack rnd] show ?thesis
    using assms r0 bot
    by (elim disjE conjE exE)
      (erule allRoomsOk_same allRoomsOk_upd [rotated 1];
        simp add: roomOk_takeSeat roomOk_ensurePvp)+
qed

lemma allRoomsOk_move:
  assumes "allRoomsOk s"
  shows "allRoomsOk (fst (moveHandler s sid payload rnd))"
proof -
  from moveHandler_rooms [of s sid payload rnd] show ?thesis
  proof
    assume "rooms (fst (moveHandler s sid payload rnd)) = rooms s"
    with assms show ?thesis by (rule allRoomsOk_same)
  next
    assume "\<exists>rid r q. rooms s rid = Some r \<and> winner r = None \<and> \<not> isDraw r
         \<and> checkIndex (mp_index payload) = Some q \<and> boardGet r q = None
         \<and> rooms (fst (moveHandler s sid payload rnd)) =
             (rooms s)(rid \<mapsto> fst (afterMove r (turn r) q rid rnd))"
    then obtain rid r q where r: "rooms s rid = Some r" "winner r = None" "\<not> isDraw r"
      "checkIndex (mp_index payload) = Some q" "boardGet r q = None"
      and u: "rooms (fst (moveHandler s sid payload rnd)) =
             (rooms s)(rid \<mapsto> fst (afterMove r (turn r) q rid rnd))"
      by blast
    from assms r(1) have "roomOk r" by (simp add: allRoomsOk_def)
    from roomOk_afterMove [OF this r(2-5)] assms u show ?thesis
      by (intro allRoomsOk_upd [OF assms u])
  qed
qed

lemma allRoomsOk_reset:
  assumes "allRoomsOk s"
  shows "allRoomsOk (fst (resetHandler s sid v rnd))"
proof -
  from resetHandler_rooms [of s sid v rnd]
  have "rooms (fst (resetHandler s sid v rnd)) = rooms s
    \<or> (\<exists>rid r. rooms s rid = Some r
         \<and> rooms (fst (resetHandler s sid v rnd)) =
             (rooms s)(rid \<mapsto> fst (maybeBotMove (resetRoom r) rid rnd)))"
    by blast
  then show ?thesis
  proof (elim disjE conjE exE)
    assume "rooms (fst (resetHandler s sid v rnd)) = rooms s"
    with assms show ?thesis by (rule allRoomsOk_same)
  next
    fix rid r
    assume r: "rooms s rid = Some r"
      and u: "rooms (fst (resetHandler s sid v rnd)) =
             (rooms s)(rid \<mapsto> fst (maybeBotMove (resetRoom r) rid rnd))"
    from assms r have "roomBase r" by (simp add: allRoomsOk_def roomOk_def)
    then have "roomOk (fst (maybeBotMove (resetRoom r) rid rnd))"
      by (intro maybeBotMove_Ok roomOk_Mid roomOk_resetRoom)
    with assms u show ?thesis by (rule allRoomsOk_upd)
  qed
qed

lemma allRoomsOk_disconnect:
  assumes "allRoomsOk s"
  shows "allRoomsOk (fst (disconnectHandler s sid))"
proof -
  from disconnectHandler_rooms [of s sid] show ?thesis
  proof (elim disjE conjE exE)
    assume "rooms (fst (disconnectHandler s sid)) = rooms s"
    with assms show ?thesis by (rule allRoomsOk_same)
  next
    fix rid r
    assume r: "rooms s rid = Some r"
      and u: "rooms (fst (disconnectHandler s sid)) =
             (rooms s)(rid \<mapsto> (if hasHuman (vacateSeat r sid) then vacateSeat r sid
                                else resetRoom (vacateSeat r sid)))"
    from assms r have ok: "roomOk (vacateSeat r sid)"
      by (simp add: allRoomsOk_def roomOk_vacateSeat)
    then have "roomBase (vacateSeat r sid)" by (simp add: roomOk_def)
    then have "roomOk (resetRoom (vacateSeat r sid))" by (rule roomOk_resetRoom)
    with ok have "roomOk (if hasHuman (vacateSeat r sid) then vacateSeat r sid
                                else resetRoom (vacateSeat r sid))"
      by simp
    with assms u show ?thesis by (rule allRoomsOk_upd)
  qed
qed

lemma allRoomsOk_handle: "allRoomsOk s \<Longrightarrow> allRoomsOk (handle s req)"
  by (cases req)
    (simp_all add: allRoomsOk_join allRoomsOk_move allRoomsOk_reset allRoomsOk_disconnect,
      simp add: allRoomsOk_def)

lemma reachable_allRoomsOk: "reachable s \<Longrightarrow> allRoomsOk s"
  by (induction rule: reachable.induct) (simp_all add: allRoomsOk_handle, simp add: allRoomsOk_def initial_def)

section \<open>Cells are written once between resets (C7)\<close>

text \<open>\<open>cellsKept b b'\<close>: same length, and every non-empty cell of \<open>b\<close> is unchanged in \<open>b'\<close>.\<close>

definition cellsKept :: "cell list \<Rightarrow> cell list \<Rightarrow> bool" where
  "cellsKept b b' \<longleftrightarrow> length b' = length b \<and> (\<forall>i<length b. b ! i \<noteq> None \<longrightarrow> b' ! i = b ! i)"

text \<open>
  The request performs a full reset of room \<open>rid\<close>: it reaches a call of
  \<^verbatim>\<open>resetRoom\<close> on that room (an honoured reset request, a join that finds no human
  in the room, a disconnect that leaves none).
\<close>

fun fullReset :: "server \<Rightarrow> request \<Rightarrow> jstring \<Rightarrow> bool" where
  "fullReset s (Connect sid) rid = False"
| "fullReset s (Join sid payload ack rnd) rid =
     (sanitizeStr (jp_name payload) [] \<noteq> [] \<and> sanitizeStr (jp_roomId payload) (lit ''lobby'') = rid
      \<and> \<not> hasHuman (joinedRoom s rid))"
| "fullReset s (Move sid payload rnd) rid = False"
| "fullReset s (Reset sid v rnd) rid =
     (sanitize v (sd_roomId (socketData s sid)) = Some rid \<and> rooms s rid \<noteq> None
      \<and> sd_symbol (socketData s sid) \<noteq> None)"
| "fullReset s (Disconnect sid) rid =
     (sd_roomId (socketData s sid) = Some rid
      \<and> (case rooms s rid of None \<Rightarrow> False | Some r \<Rightarrow> \<not> hasHuman (vacateSeat r sid)))"

text \<open>A stretch of an execution in which no request performs a full reset of room \<open>rid\<close>.\<close>

inductive quiet :: "jstring \<Rightarrow> server \<Rightarrow> server \<Rightarrow> bool" for rid where
  quiet_refl: "quiet rid s s"
| quiet_step: "quiet rid s s1 \<Longrightarrow> enabled s1 req \<Longrightarrow> \<not> fullReset s1 req rid
    \<Longrightarrow> quiet rid s (handle s1 req)"

lemma cellsKept_refl: "cellsKept b b"
  by (simp add: cellsKept_def)

lemma cellsKept_trans: "cellsKept b b' \<Longrightarrow> cellsKept b' b'' \<Longrightarrow> cellsKept b b''"
  by (auto simp: cellsKept_def)

lemma cellsKept_fill: "b ! i = None \<Longrightarrow> cellsKept b (b[i := c])"
proof -
  assume e: "b ! i = None"
  have "b[i := c] ! j = b ! j" if "b ! j \<noteq> None" for j
  proof -
    from that e have "i \<noteq> j" by auto
    then show ?thesis by (rule nth_list_update_neq)
  qed
  then show ?thesis by (simp add: cellsKept_def)
qed

lemma cellsKept_applyMove:
  assumes "length (board r) = 9" and "checkIndex v = Some q" and "boardGet r q = None"
  shows "cellsKept (board r) (board (applyMove r s q))"
proof (cases "isArrayIndex q")
  case False
  with assms(1,2) show ?thesis by (simp add: applyMove_board_accepted cellsKept_refl)
next
  case True
  from checkIndex_cell [OF assms(2) True] assms(1) have "arrayIndex q < length (board r)" by simp
  with assms(3) True have "board r ! arrayIndex q = None" by (simp add: boardGet_def cellAt_def)
  with assms(1,2) True show ?thesis by (simp add: applyMove_board_accepted cellsKept_fill)
qed

lemma cellsKept_maybeBotMove:
  "cellsKept (board r) (board (fst (maybeBotMove r rid rnd)))"
proof -
  from maybeBotMove_cases [of r rid rnd] show ?thesis
  proof
    assume "maybeBotMove r rid rnd = (r, [], False)"
    then show ?thesis by (simp add: cellsKept_refl)
  next
    assume "\<exists>i. botSymbol r = Some (turn r) \<and> mode r = BotMode \<and> winner r = None \<and> \<not> isDraw r
          \<and> getBotMove r rnd = Some i
          \<and> maybeBotMove r rid rnd =
              (applyMove r (turn r) (of_nat i),
               [Broadcast rid (getState (applyMove r (turn r) (of_nat i)))], True)"
    then obtain i where i: "getBotMove r rnd = Some i"
      and m: "maybeBotMove r rid rnd =
              (applyMove r (turn r) (of_nat i),
               [Broadcast rid (getState (applyMove r (turn r) (of_nat i)))], True)"
      by blast
    from getBotMove_available [OF i] have "i < length (board r)" "board r ! i = None"
      by (simp_all add: getAvailableMoves_iff)
    with m show ?thesis by (simp add: applyMove_cell cellsKept_fill)
  qed
qed

lemma cellsKept_afterMove:
  assumes "length (board r) = 9" and "checkIndex v = Some q" and "boardGet r q = None"
  shows "cellsKept (board r) (board (fst (afterMove r s q rid rnd)))"
proof -
  note a = cellsKept_applyMove [OF assms, of s]
  show ?thesis
  proof (cases "mode (applyMove r s q) = BotMode")
    case True
    with cellsKept_trans [OF a cellsKept_maybeBotMove [of "applyMove r s q" rid rnd]]
    show ?thesis by (simp add: afterMove_def)
  next
    case False
    with a show ?thesis by (simp add: afterMove_def)
  qed
qed

lemma vacateSeat_board: "board (vacateSeat r sid) = board r"
  by (simp add: vacateSeat_def split: option.splits)

lemma joinHandler_rooms_other:
  assumes "k \<noteq> sanitizeStr (jp_roomId payload) (lit ''lobby'')"
  shows "rooms (fst (joinHandler s sid payload ack rnd)) k = rooms s k"
  using joinHandler_rooms [of s sid payload ack rnd] assms
  by (elim disjE conjE exE) simp_all

lemma joinHandler_room_kept:
  assumes "rooms s rid = Some r" and "sanitizeStr (jp_roomId payload) (lit ''lobby'') = rid"
    and "sanitizeStr (jp_name payload) [] = [] \<or> hasHuman (joinedRoom s rid)"
  shows "rooms (fst (joinHandler s sid payload ack rnd)) rid = Some r
    \<or> (\<exists>sy. rooms (fst (joinHandler s sid payload ack rnd)) rid =
          Some (takeSeat r sy sid (sanitizeStr (jp_name payload) [])))"
proof -
  from assms(1) have j: "joinedRoom s rid = r" by (simp add: joinedRoom_def)
  from joinHandler_rooms [of s sid payload ack rnd] assms(3) show ?thesis
    unfolding assms(2) j using assms(1)
    by (elim disjE conjE exE) (simp_all, blast+)
qed

lemma quiet_step_keeps:
  assumes ok: "allRoomsOk s" and r: "rooms s rid = Some r" and q: "\<not> fullReset s req rid"
  shows "\<exists>r'. rooms (handle s req) rid = Some r' \<and> cellsKept (board r) (board r')"
proof (cases req)
  case (Connect sid)
  with r have "rooms (handle s req) rid = Some r" by simp
  then show ?thesis using cellsKept_refl by blast
next
  case (Join sid payload ack rnd)
  let ?k = "sanitizeStr (jp_roomId payload) (lit ''lobby'')"
  show ?thesis
  proof (cases "?k = rid")
    case False
    then have "rooms (fst (joinHandler s sid payload ack rnd)) rid = rooms s rid"
      by (rule joinHandler_rooms_other [OF not_sym])
    with r have "rooms (handle s req) rid = Some r" by (simp add: Join)
    then show ?thesis using cellsKept_refl by blast
  next
    case True
    from q True have "sanitizeStr (jp_name payload) [] = [] \<or> hasHuman (joinedRoom s rid)"
      by (auto simp: Join)
    from joinHandler_room_kept [OF r True this, of sid ack rnd]
    show ?thesis
    proof (elim disjE exE)
      assume "rooms (fst (joinHandler s sid payload ack rnd)) rid = Some r"
      then have "rooms (handle s req) rid = Some r" by (simp add: Join)
      then show ?thesis using cellsKept_refl by blast
    next
      fix sy
      assume "rooms (fst (joinHandler s sid payload ack rnd)) rid =
          Some (takeSeat r sy sid (sanitizeStr (jp_name payload) []))"
      then have "rooms (handle s req) rid = Some (takeSeat r sy sid (sanitizeStr (jp_name payload) []))"
        by (simp add: Join)
      moreover have "cellsKept (board r) (board (takeSeat r sy sid (sanitizeStr (jp_name payload) [])))"
        by (simp add: takeSeat_fields cellsKept_refl)
      ultimately show ?thesis by blast
    qed
  qed
next
  case (Move sid payload rnd)
  from moveHandler_rooms [of s sid payload rnd] show ?thesis
  proof
    assume "rooms (fst (moveHandler s sid payload rnd)) = rooms s"
    with r show ?thesis by (simp add: Move cellsKept_refl)
  next
    assume "\<exists>k r0 q. rooms s k = Some r0 \<and> winner r0 = None \<and> \<not> isDraw r0
         \<and> checkIndex (mp_index payload) = Some q \<and> boardGet r0 q = None
         \<and> rooms (fst (moveHandler s sid payload rnd)) =
             (rooms s)(k \<mapsto> fst (afterMove r0 (turn r0) q k rnd))"
    then obtain k r0 q where r0: "rooms s k = Some r0"
      "checkIndex (mp_index payload) = Some q" "boardGet r0 q = None"
      and u: "rooms (fst (moveHandler s sid payload rnd)) =
             (rooms s)(k \<mapsto> fst (afterMove r0 (turn r0) q k rnd))"
      by blast
    show ?thesis
    proof (cases "k = rid")
      case False
      with u r have "rooms (handle s req) rid = Some r" by (simp add: Move)
      then show ?thesis using cellsKept_refl by blast
    next
      case True
      with r0(1) r have e: "r0 = r" by simp
      from ok r have len: "length (board r) = 9"
        by (simp add: allRoomsOk_def roomOk_def roomBase_def)
      from u True e have "rooms (handle s req) rid = Some (fst (afterMove r (turn r) q rid rnd))"
        by (simp add: Move)
      moreover have "cellsKept (board r) (board (fst (afterMove r (turn r) q rid rnd)))"
        using len r0(2) r0(3) [unfolded e] by (rule cellsKept_afterMove)
      ultimately show ?thesis by blast
    qed
  qed
next
  case (Reset sid v rnd)
  from q r have "roomsGet s (sanitize v (sd_roomId (socketData s sid))) = None
      \<or> sd_symbol (socketData s sid) = None
      \<or> sanitize v (sd_roomId (socketData s sid)) \<noteq> Some rid"
    by (auto simp: Reset)
  then have "rooms (fst (resetHandler s sid v rnd)) rid = rooms s rid"
  proof (elim disjE)
    assume n: "sanitize v (sd_roomId (socketData s sid)) \<noteq> Some rid"
    from resetHandler_rooms [of s sid v rnd] show ?thesis
    proof (elim disjE conjE exE)
      fix k r0
      assume "sanitize v (sd_roomId (socketData s sid)) = Some k"
        and "rooms (fst (resetHandler s sid v rnd)) =
             (rooms s)(k \<mapsto> fst (maybeBotMove (resetRoom r0) k rnd))"
      with n show ?thesis by simp
    qed simp_all
  qed (simp_all add: resetHandler_unresolved)
  with r have "rooms (handle s req) rid = Some r" by (simp add: Reset)
  then show ?thesis using cellsKept_refl by blast
next
  case (Disconnect sid)
  from disconnectHandler_rooms [of s sid]
  have "rooms (fst (disconnectHandler s sid)) rid = Some r
    \<or> rooms (fst (disconnectHandler s sid)) rid = Some (vacateSeat r sid)"
  proof (elim disjE conjE exE)
    assume "rooms (fst (disconnectHandler s sid)) = rooms s"
    with r show ?thesis by simp
  next
    fix k r0
    assume k: "sd_roomId (socketData s sid) = Some k" "rooms s k = Some r0"
      and u: "rooms (fst (disconnectHandler s sid)) =
             (rooms s)(k \<mapsto> (if hasHuman (vacateSeat r0 sid) then vacateSeat r0 sid
                                else resetRoom (vacateSeat r0 sid)))"
    show ?thesis
    proof (cases "k = rid")
      case False
      with u r show ?thesis by simp
    next
      case True
      with k r have e: "r0 = r" by simp
      from q k(1) r True have "hasHuman (vacateSeat r sid)" by (simp add: Disconnect)
      with u True e show ?thesis by simp
    qed
  qed
  then show ?thesis
  proof
    assume "rooms (fst (disconnectHandler s sid)) rid = Some r"
    then have "rooms (handle s req) rid = Some r" by (simp add: Disconnect)
    then show ?thesis using cellsKept_refl by blast
  next
    assume "rooms (fst (disconnectHandler s sid)) rid = Some (vacateSeat r sid)"
    then have "rooms (handle s req) rid = Some (vacateSeat r sid)" by (simp add: Disconnect)
    moreover have "cellsKept (board r) (board (vacateSeat r sid))"
      by (simp add: vacateSeat_board cellsKept_refl)
    ultimately show ?thesis by blast
  qed
qed

lemma quiet_reachable: "quiet rid s s' \<Longrightarrow> reachable s \<Longrightarrow> reachable s'"
  by (induction rule: quiet.induct) (auto intro: reachable.step)

text \<open>
  C7. In every reachable state every room has a board of exactly 9 cells. Along any
  stretch of an execution in which no request performs a full reset of a room, the
  room stays in the registry, its board keeps 9 cells, and every cell that held a
  symbol at the start of the stretch holds the same symbol at its end: an accepted
  move and a move of the bot only ever write a cell that was empty, so between two
  full resets a cell changes at most once, from empty to a symbol.
\<close>

theorem board_cells_written_once:
  assumes "reachable s" and "rooms s rid = Some r" and "quiet rid s s'"
  shows "length (board r) = 9
    \<and> (\<exists>r'. rooms s' rid = Some r' \<and> length (board r') = 9
          \<and> (\<forall>i<9. board r ! i \<noteq> None \<longrightarrow> board r' ! i = board r ! i))"
proof -
  from assms(1,2) have len: "length (board r) = 9"
    using reachable_allRoomsOk [of s] by (simp add: allRoomsOk_def roomOk_def roomBase_def)
  from assms(3,1,2) have "\<exists>r'. rooms s' rid = Some r' \<and> cellsKept (board r) (board r')"
  proof (induction rule: quiet.induct)
    case (quiet_refl s)
    then show ?case by (simp add: cellsKept_refl)
  next
    case (quiet_step s s1 req)
    then obtain r1 where r1: "rooms s1 rid = Some r1" "cellsKept (board r) (board r1)" by blast
    from quiet_step.hyps(1) quiet_step.prems(1) have "reachable s1" by (rule quiet_reachable)
    then have "allRoomsOk s1" by (rule reachable_allRoomsOk)
    from quiet_step_keeps [OF this r1(1) quiet_step.hyps(3)]
    obtain r' where "rooms (handle s1 req) rid = Some r'" "cellsKept (board r1) (board r')" by blast
    with r1(2) show ?case by (auto intro: cellsKept_trans)
  qed
  with len show ?thesis by (auto simp: cellsKept_def)
qed


theorem board_cells_written_once_witness:
  "(let pj = \<lparr>jp_roomId = JOther, jp_name = JString (lit ''Ann''), jp_mode = JOther,
               jp_difficulty = JOther, jp_symbol = JOther\<rparr>;
        pk = \<lparr>jp_roomId = JOther, jp_name = JString (lit ''Bob''), jp_mode = JOther,
               jp_difficulty = JOther, jp_symbol = JOther\<rparr>;
        mv = \<lparr>mp_roomId = JOther, mp_index = JNumber 4\<rparr>;
        s3 = handle (handle (handle initial (Connect ''a'')) (Join ''a'' pj False 0)) (Move ''a'' mv 0);
        s5 = handle (handle s3 (Connect ''b'')) (Join ''b'' pk False 0)
    in reachable s3 \<and> quiet (lit ''lobby'') s3 s5
       \<and> board (the (rooms s3 (lit ''lobby''))) ! 4 = Some SymX
       \<and> board (the (rooms s5 (lit ''lobby''))) ! 4 = Some SymX
       \<and> length (board (the (rooms s5 (lit ''lobby'')))) = 9)"
proof -
  define pj where "pj = \<lparr>jp_roomId = JOther, jp_name = JString (lit ''Ann''), jp_mode = JOther,
               jp_difficulty = JOther, jp_symbol = JOther\<rparr>"
  define pk where "pk = \<lparr>jp_roomId = JOther, jp_name = JString (lit ''Bob''), jp_mode = JOther,
               jp_difficulty = JOther, jp_symbol = JOther\<rparr>"
  define mv where "mv = \<lparr>mp_roomId = JOther, mp_index = JNumber 4\<rparr>"
  define s1 where "s1 = handle initial (Connect ''a'')"
  define s2 where "s2 = handle s1 (Join ''a'' pj False 0)"
  define s3 where "s3 = handle s2 (Move ''a'' mv 0)"
  define s4 where "s4 = handle s3 (Connect ''b'')"
  define s5 where "s5 = handle s4 (Join ''b'' pk False 0)"
  define rA where "rA = takeSeat (createRoom (lit ''lobby'')) SymX ''a'' (lit ''Ann'')"
  define r3 where "r3 = applyMove rA SymX 4"
  have n: "sanitizeStr (jp_roomId pj) (lit ''lobby'') = (lit ''lobby'')" "sanitizeStr (jp_name pj) [] = (lit ''Ann'')"
    "normalizeMode (jp_mode pj) = Pvp"
    "sanitizeStr (jp_roomId pk) (lit ''lobby'') = (lit ''lobby'')" "sanitizeStr (jp_name pk) [] = (lit ''Bob'')"
    by (simp_all add: pj_def pk_def sanitizeStr_def sanitize_def trim_def isSpace_def lit_def normalizeMode_def)
  have e1: "rooms s1 = Map.empty" "socks s1 ''a'' = Some noData"
    by (simp_all add: s1_def initial_def)
  have e2: "s2 = bindSocket (putRoom s1 (lit ''lobby'') rA) ''a'' (lit ''lobby'') SymX (lit ''Ann'')"
    unfolding s2_def rA_def handle.simps using n
    by (intro joinHandler_pvp_fresh) (simp_all add: e1)
  have f2: "sd_roomId (socketData s2 ''a'') = Some (lit ''lobby'')" "sd_symbol (socketData s2 ''a'') = Some SymX"
    "rooms s2 (lit ''lobby'') = Some rA" "socks s2 ''a'' \<noteq> None"
    by (simp_all add: e2 bindSocket_def putRoom_def socketData_def)
  have t: "sanitize (mp_roomId mv) (sd_roomId (socketData s2 ''a'')) = Some (lit ''lobby'')"
    by (simp add: mv_def sanitize_def f2)
  have ai: "isArrayIndex 4" "arrayIndex 4 = 4"
    using isArrayIndex_of_nat [of 4] arrayIndex_of_nat [of 4] by simp_all
  have rAf: "turn rA = SymX" "winner rA = None" "\<not> isDraw rA" "mode rA = Pvp" "board rA = emptyBoard"
    "boardGet rA 4 = None"
    by (simp_all add: rA_def takeSeat_fields createRoom_def boardGet_def ai cellAt_def emptyBoard_def)
  have ix: "indexInRange (mp_index mv)" "indexValue (mp_index mv) = 4"
    by (simp_all add: mv_def indexInRange_def indexValue_def)
  have e3: "s3 = putRoom s2 (lit ''lobby'') r3"
    unfolding s3_def r3_def handle.simps using rAf ix
    by (simp add: moveHandler_resolved [OF t f2(3) f2(2)] afterMove_def applyMove_fields)
  have b3: "board r3 = emptyBoard[4 := Some SymX]"
    using rAf by (simp add: r3_def applyMove_board ai writeCell_def emptyBoard_def)
  have f3: "rooms s3 (lit ''lobby'') = Some r3" "socks s3 ''b'' = None"
    by (simp_all add: e3 e2 putRoom_def bindSocket_def s1_def initial_def)
  have h3: "hasHuman r3"
    by (simp add: r3_def hasHuman_def applyMove_fields rA_def takeSeat_def isBot_def)
  have f4: "rooms s4 = rooms s3" "socks s4 ''b'' \<noteq> None"
    by (simp_all add: s4_def)
  have "reachable s1"
    unfolding s1_def by (rule reachable.step [OF reachable.start]) (simp add: initial_def)
  then have "reachable s2"
    unfolding s2_def by (rule reachable.step) (simp add: e1)
  then have reach: "reachable s3"
    unfolding s3_def by (rule reachable.step) (simp add: f2)
  have q4: "quiet (lit ''lobby'') s3 s4"
    unfolding s4_def by (intro quiet_step quiet_refl) (simp_all add: f3)
  have "\<not> fullReset s4 (Join ''b'' pk False 0) (lit ''lobby'')"
    using n h3 f3 by (simp add: joinedRoom_def f4)
  with q4 f4 have q5: "quiet (lit ''lobby'') s3 s5"
    unfolding s5_def by (intro quiet_step) simp_all
  have c4: "board r3 ! 4 = Some SymX"
    by (simp add: b3 emptyBoard_def)
  from board_cells_written_once [OF reach f3(1) q5] c4
  have "board (the (rooms s5 (lit ''lobby''))) ! 4 = Some SymX \<and> length (board (the (rooms s5 (lit ''lobby'')))) = 9"
    by auto
  with reach q5 c4 f3 have "reachable s3 \<and> quiet (lit ''lobby'') s3 s5
       \<and> board (the (rooms s3 (lit ''lobby''))) ! 4 = Some SymX
       \<and> board (the (rooms s5 (lit ''lobby''))) ! 4 = Some SymX
       \<and> length (board (the (rooms s5 (lit ''lobby'')))) = 9"
    by simp
  then show ?thesis
    unfolding s5_def s4_def s3_def s2_def s1_def pj_def pk_def mv_def Let_def .
qed

section \<open>The hard bot never loses (C1)\<close>

text \<open>
  The room states of an execution: the rooms stored in a reachable state, and the
  rooms the handlers hold when they call \<open>maybeBotMove\<close> (after seating the requester
  of a bot match, after a reset, after applying an accepted move).
\<close>

inductive roomState :: "room \<Rightarrow> bool" where
  stored: "reachable s \<Longrightarrow> rooms s rid = Some r \<Longrightarrow> roomState r"
| in_join: "reachable s \<Longrightarrow>
    roomState (takeSeat (ensureBot (resetRoom (joinedRoom s rid)) bs d) sy sid name)"
| in_reset: "reachable s \<Longrightarrow> rooms s rid = Some r \<Longrightarrow> roomState (resetRoom r)"
| in_move: "reachable s \<Longrightarrow> rooms s rid = Some r \<Longrightarrow> winner r = None \<Longrightarrow> \<not> isDraw r
    \<Longrightarrow> checkIndex v = Some q \<Longrightarrow> boardGet r q = None \<Longrightarrow> roomState (applyMove r (turn r) q)"

text \<open>
  A continuation of the game in a room, counted in moves: the opponent of the bot
  symbol \<open>bs\<close> makes any move the move handler accepts, and the bot's moves are those
  of \<open>maybeBotMove\<close>.
\<close>

inductive plays :: "sym \<Rightarrow> room \<Rightarrow> nat \<Rightarrow> room \<Rightarrow> bool" for bs r where
  plays_start: "plays bs r 0 r"
| plays_opponent: "plays bs r n r1 \<Longrightarrow> turn r1 = other bs \<Longrightarrow> winner r1 = None \<Longrightarrow> \<not> isDraw r1
    \<Longrightarrow> checkIndex v = Some q \<Longrightarrow> boardGet r1 q = None
    \<Longrightarrow> plays bs r (Suc n) (applyMove r1 (other bs) q)"
| plays_bot: "plays bs r n r1 \<Longrightarrow> maybeBotMove r1 rid rnd = (r2, evs, True)
    \<Longrightarrow> plays bs r (Suc n) r2"

text \<open>What is left of the game: two per empty cell, and one more while the opponent is to move.\<close>

definition movesLeft :: "sym \<Rightarrow> room \<Rightarrow> nat" where
  "movesLeft bs r = 2 * emptyCount (board r) + (if turn r = bs then 0 else 1)"

lemma roomState_Mid: "roomState r \<Longrightarrow> roomMid r"
proof (induction rule: roomState.induct)
  case (stored s rid r)
  then show ?case
    using reachable_allRoomsOk [of s] by (simp add: allRoomsOk_def roomOk_Mid)
next
  case (in_join s rid bs d sy sid name)
  show ?case by (intro roomOk_Mid roomOk_takeSeat roomOk_ensureBot)
next
  case (in_reset s rid r)
  then have "roomBase r"
    using reachable_allRoomsOk [of s] by (simp add: allRoomsOk_def roomOk_def)
  then show ?case by (intro roomOk_Mid roomOk_resetRoom)
next
  case (in_move s rid r v q)
  then have "roomOk r"
    using reachable_allRoomsOk [of s] by (simp add: allRoomsOk_def)
  with in_move show ?case
    by (intro roomMid_applyMove) (auto simp: roomOk_def)
qed

lemma maybeBotMove_moved:
  assumes "maybeBotMove r rid rnd = (r2, evs, True)"
  shows "\<exists>i. i < length (board r) \<and> board r ! i = None \<and> botSymbol r = Some (turn r)
      \<and> r2 = applyMove r (turn r) (of_nat i)"
proof -
  from maybeBotMove_cases [of r rid rnd] assms
  obtain i where i: "botSymbol r = Some (turn r)" "getBotMove r rnd = Some i"
    "r2 = applyMove r (turn r) (of_nat i)"
    by auto
  from getBotMove_available [OF i(2)] i(1,3) show ?thesis
    by (auto simp: getAvailableMoves_iff)
qed

lemma getBotMove_some:
  assumes "getWinner (board r) = None" and "\<not> everyFilled (board r)"
    and "botSymbol r = Some (turn r)"
  shows "\<exists>i. getBotMove r rnd = Some i \<and> i \<in> set (getAvailableMoves (board r))"
proof -
  from assms(2) have ne: "getAvailableMoves (board r) \<noteq> []"
    by (rule getAvailableMoves_nonempty)
  show ?thesis
  proof (cases "difficulty r")
    case Easy
    from ne have "getAvailableMoves (board r) ! (rnd mod length (getAvailableMoves (board r)))
        \<in> set (getAvailableMoves (board r))"
      by (intro nth_mem) simp
    with ne Easy show ?thesis by (simp add: getBotMove_def Let_def)
  next
    case Hard
    from assms(1) have "getWinner (board r) \<noteq> Some (turn r)" "getWinner (board r) \<noteq> Some (other (turn r))"
      by simp_all
    from minimax_choice [OF this assms(2), of "turn r" 0]
    obtain i where "i \<in> set (getAvailableMoves (board r))"
      "minimax (board r) (turn r) (turn r) (other (turn r)) 0 =
         Some \<lparr>mm_score = childScore (board r) (turn r) (turn r) (other (turn r)) 0 i, mm_index = Some i\<rparr>"
      by blast
    with ne Hard assms(3) show ?thesis by (simp add: getBotMove_def Let_def other_if)
  qed
qed

lemma movesLeft_bound: "length (board r) = 9 \<Longrightarrow> movesLeft bs r \<le> 19"
  using emptyCount_le_length [of "board r"] by (simp add: movesLeft_def)

lemma movesLeft_opponent:
  assumes "roomBase r" and "turn r = other bs" and "winner r = None" and "\<not> isDraw r"
    and "checkIndex v = Some q" and "boardGet r q = None"
  shows "movesLeft bs (applyMove r (other bs) q) < movesLeft bs r"
proof -
  let ?r' = "applyMove r (other bs) q"
  from assms(1) have len: "length (board r) = 9" by (simp add: roomBase_def)
  from assms(2) have m: "movesLeft bs r = 2 * emptyCount (board r) + 1"
    by (simp add: movesLeft_def)
  show ?thesis
  proof (cases "isArrayIndex q")
    case True
    from checkIndex_cell [OF assms(5) True] len have il: "arrayIndex q < length (board r)" by simp
    with assms(6) True have "board r ! arrayIndex q = None" by (simp add: boardGet_def cellAt_def)
    with il have "emptyCount ((board r)[arrayIndex q := Some (other bs)]) < emptyCount (board r)"
      by (rule emptyCount_update)
    with True len assms(5) have "emptyCount (board ?r') < emptyCount (board r)"
      by (simp add: applyMove_board_accepted)
    then show ?thesis by (simp add: movesLeft_def assms(2))
  next
    case False
    with len assms(5) have b: "board ?r' = board r" by (simp add: applyMove_board_accepted)
    from assms(1,3,4) have "getWinner (board r) = None" "\<not> everyFilled (board r)"
      by (auto simp: roomBase_def)
    with assms(2) have "turn ?r' = bs" by (simp add: applyMove_outcome b)
    then show ?thesis by (simp add: movesLeft_def b assms(2))
  qed
qed

lemma movesLeft_bot:
  assumes "maybeBotMove r rid rnd = (r2, evs, True)" and "botSymbol r = Some bs"
  shows "movesLeft bs r2 < movesLeft bs r"
proof -
  from maybeBotMove_moved [OF assms(1)] assms(2)
  obtain i where i: "i < length (board r)" "board r ! i = None" "turn r = bs"
    "r2 = applyMove r (turn r) (of_nat i)"
    by auto
  from i(1,2) have "emptyCount ((board r)[i := Some bs]) < emptyCount (board r)"
    by (rule emptyCount_update)
  with i show ?thesis by (simp add: movesLeft_def applyMove_cell)
qed

lemma plays_invariant:
  assumes "plays bs r n r'" and "roomMid r" and "mode r = BotMode" and "difficulty r = Hard"
    and "botSymbol r = Some bs"
  shows "roomMid r' \<and> mode r' = BotMode \<and> difficulty r' = Hard \<and> botSymbol r' = Some bs
    \<and> n + movesLeft bs r' \<le> movesLeft bs r"
  using assms
proof (induction rule: plays.induct)
  case plays_start
  then show ?case by simp
next
  case (plays_opponent n r1 v q)
  then have ih: "roomMid r1" "mode r1 = BotMode" "difficulty r1 = Hard" "botSymbol r1 = Some bs"
    "n + movesLeft bs r1 \<le> movesLeft bs r"
    by simp_all
  from ih(1) have base: "roomBase r1" by (simp add: roomMid_def)
  have "nolose c (other c) (board r1)"
    if "mode r1 = BotMode" "difficulty r1 = Hard" "botSymbol r1 = Some c" for c
    using that ih(1,4) plays_opponent.hyps(2) by (auto simp: roomMid_def)
  with base plays_opponent.hyps have "roomMid (applyMove r1 (turn r1) q)"
    by (intro roomMid_applyMove)
  moreover from movesLeft_opponent [OF base plays_opponent.hyps(2-6)] ih(5)
  have "Suc n + movesLeft bs (applyMove r1 (other bs) q) \<le> movesLeft bs r" by simp
  ultimately show ?case
    using ih(2-4) plays_opponent.hyps(2) by (simp add: applyMove_fields)
next
  case (plays_bot n r1 rid rnd r2 evs)
  then have ih: "roomMid r1" "mode r1 = BotMode" "difficulty r1 = Hard" "botSymbol r1 = Some bs"
    "n + movesLeft bs r1 \<le> movesLeft bs r"
    by simp_all
  from plays_bot.hyps(2) have r2: "r2 = fst (maybeBotMove r1 rid rnd)" by simp
  from maybeBotMove_Ok [OF ih(1), of rid rnd] have "roomMid r2"
    unfolding r2 by (rule roomOk_Mid)
  moreover from movesLeft_bot [OF plays_bot.hyps(2) ih(4)] ih(5)
  have "Suc n + movesLeft bs r2 \<le> movesLeft bs r" by simp
  ultimately show ?case
    using ih(2-4) by (simp add: r2 maybeBotMove_fields)
qed


lemma plays_progress:
  assumes "roomBase r" and "mode r = BotMode" and "botSymbol r = Some bs"
    and "winner r = None" and "\<not> isDraw r"
  shows "(\<exists>v q. turn r = other bs \<and> checkIndex v = Some q \<and> boardGet r q = None)
    \<or> (\<exists>r2 evs. maybeBotMove r (room_id r) 0 = (r2, evs, True))"
proof (cases "turn r = bs")
  case True
  from assms(1,4,5) have u: "getWinner (board r) = None" "\<not> everyFilled (board r)"
    by (auto simp: roomBase_def)
  from getBotMove_some [OF u, of 0] assms(3) True
  obtain i where "getBotMove r 0 = Some i" by auto
  with assms True have "\<exists>r2 evs. maybeBotMove r (room_id r) 0 = (r2, evs, True)"
    by (simp add: maybeBotMove_def Let_def)
  then show ?thesis ..
next
  case False
  with other_cases [of "turn r" bs] have t: "turn r = other bs" by auto
  from assms(1,4,5) have "\<not> everyFilled (board r)" and len: "length (board r) = 9"
    by (auto simp: roomBase_def)
  then have "getAvailableMoves (board r) \<noteq> []" by (intro getAvailableMoves_nonempty)
  then obtain i where "i \<in> set (getAvailableMoves (board r))"
    by (cases "getAvailableMoves (board r)") auto
  then have i: "i < 9" "board r ! i = None" using len by (simp_all add: getAvailableMoves_iff)
  from i(1) have "checkIndex (JNumber (of_nat i)) = Some (of_nat i)"
    by (simp add: checkIndex_def)
  moreover from i len have "boardGet r (of_nat i) = None"
    by (simp add: boardGet_def cellAt_def)
  ultimately show ?thesis using t by blast
qed

text \<open>
  C1. Take any room state of an execution that is a bot match of difficulty hard, with
  bot symbol \<open>bs\<close>: a stored room, or the room a handler holds when it lets the bot
  answer. In every continuation where the opponent makes moves the move handler accepts
  and the bot's moves are those of \<open>maybeBotMove\<close>, the winner is never the opponent.
  A continuation has at most 19 moves, it can be continued as long as the game is
  undecided, and a decided game is a win of the bot or a draw.
\<close>

theorem hard_bot_never_loses:
  assumes "roomState r" and "mode r = BotMode" and "difficulty r = Hard"
    and "botSymbol r = Some bs" and "plays bs r n r'"
  shows "winner r' \<noteq> Some (other bs) \<and> n \<le> 19
    \<and> (if winner r' = None \<and> \<not> isDraw r' then (\<exists>r''. plays bs r (Suc n) r'')
        else winner r' = Some bs \<or> isDraw r')"
proof -
  from assms(1) have mid: "roomMid r" by (rule roomState_Mid)
  from plays_invariant [OF assms(5) mid assms(2-4)]
  have inv: "roomMid r'" "mode r' = BotMode" "difficulty r' = Hard" "botSymbol r' = Some bs"
    "n + movesLeft bs r' \<le> movesLeft bs r"
    by simp_all
  from inv(1) have base: "roomBase r'" by (simp add: roomMid_def)
  from inv(1-4) have "nolose bs (turn r') (board r')" by (simp add: roomMid_def)
  then have "getWinner (board r') \<noteq> Some (other bs)" by (rule nolose_not_lost)
  with base have w: "winner r' \<noteq> Some (other bs)" by (simp add: roomBase_def)
  from mid have "length (board r) = 9" by (simp add: roomMid_def roomBase_def)
  from movesLeft_bound [OF this, of bs] inv(5) have n: "n \<le> 19" by simp
  have "\<exists>r''. plays bs r (Suc n) r''" if u: "winner r' = None" "\<not> isDraw r'"
  proof -
    from plays_progress [OF base inv(2,4) u]
    consider v q where "turn r' = other bs" "checkIndex v = Some q" "boardGet r' q = None"
      | r2 evs where "maybeBotMove r' (room_id r') 0 = (r2, evs, True)"
      by blast
    then show ?thesis
    proof cases
      case 1
      from plays_opponent [OF assms(5) 1(1) u 1(2,3)] show ?thesis ..
    next
      case 2
      from plays_bot [OF assms(5) 2] show ?thesis ..
    qed
  qed
  moreover have "winner r' = Some bs" if "winner r' \<noteq> None"
  proof -
    from that obtain c where c: "winner r' = Some c" by auto
    with w have "c \<noteq> other bs" by simp
    with other_cases [of c bs] have "c = bs" by auto
    with c show ?thesis by simp
  qed
  ultimately show ?thesis using w n by auto
qed

theorem hard_bot_never_loses_witness:
  "(let r = takeSeat (ensureBot (resetRoom (createRoom (lit ''lobby''))) SymO Hard) SymX ''a'' (lit ''Ann'');
        r1 = applyMove r SymX 4
    in roomState r \<and> mode r = BotMode \<and> difficulty r = Hard \<and> botSymbol r = Some SymO
       \<and> plays SymO r 1 r1 \<and> winner r1 = None \<and> \<not> isDraw r1
       \<and> (\<exists>r2. plays SymO r 2 r2))"
proof -
  define r where "r = takeSeat (ensureBot (resetRoom (createRoom (lit ''lobby''))) SymO Hard) SymX ''a'' (lit ''Ann'')"
  define r1 where "r1 = applyMove r SymX 4"
  define s1 where "s1 = handle initial (Connect ''a'')"
  have "reachable s1"
    unfolding s1_def by (rule reachable.step [OF reachable.start]) (simp add: initial_def)
  moreover have "joinedRoom s1 (lit ''lobby'') = createRoom (lit ''lobby'')"
    by (simp add: joinedRoom_def s1_def initial_def)
  ultimately have rs: "roomState r"
    using roomState.in_join [of s1 "lit ''lobby''" SymO Hard SymX "''a''" "lit ''Ann''"] by (simp add: r_def)
  have f: "mode r = BotMode" "difficulty r = Hard" "botSymbol r = Some SymO" "turn r = SymX"
    "winner r = None" "\<not> isDraw r" "board r = emptyBoard" "boardProps r = Map.empty"
    by (simp_all add: r_def takeSeat_def ensureBot_def resetRoom_def createRoom_def)
  have ai: "isArrayIndex 4" "arrayIndex 4 = 4"
    using isArrayIndex_of_nat [of 4] arrayIndex_of_nat [of 4] by simp_all
  have c: "checkIndex (JNumber 4) = Some 4" by (simp add: checkIndex_def)
  have g: "boardGet r 4 = None" by (simp add: boardGet_def ai f cellAt_def emptyBoard_def)
  have "plays SymO r (Suc 0) (applyMove r (other SymO) 4)"
    by (rule plays_opponent [OF plays_start _ f(5,6) c g]) (simp add: f other_def)
  then have p: "plays SymO r 1 r1" by (simp add: r1_def other_def)
  have b1: "board r1 = emptyBoard[4 := Some SymX]"
    by (simp add: r1_def applyMove_board ai writeCell_def f emptyBoard_def)
  have u: "winner r1 = None" "\<not> isDraw r1"
    unfolding r1_def applyMove_outcome unfolding r1_def [symmetric] b1 by code_simp+
  from hard_bot_never_loses [OF rs f(1-3) p] u have "\<exists>r2. plays SymO r 2 r2"
    by (simp add: numeral_2_eq_2)
  with rs f(1-3) p u show ?thesis by (simp add: r_def r1_def Let_def)
qed

section \<open>Move validation (C5)\<close>

lemma moveHandler_checks:
  assumes "sanitize (mp_roomId payload) (sd_roomId (socketData s sid)) = Some rid"
    and "rooms s rid = Some r" and "sd_symbol (socketData s sid) = Some sy"
  shows "(turn r \<noteq> sy \<longrightarrow>
            moveHandler s sid payload rnd = (s, [PrivateError sid ''Not your turn.'']))
    \<and> (turn r = sy \<and> (winner r \<noteq> None \<or> isDraw r) \<longrightarrow>
            moveHandler s sid payload rnd = (s, [PrivateError sid ''Game is finished.'']))
    \<and> (turn r = sy \<and> winner r = None \<and> \<not> isDraw r \<and> \<not> indexInRange (mp_index payload) \<longrightarrow>
            moveHandler s sid payload rnd = (s, [PrivateError sid ''Invalid move.'']))
    \<and> (turn r = sy \<and> winner r = None \<and> \<not> isDraw r \<and> indexInRange (mp_index payload)
          \<and> boardGet r (indexValue (mp_index payload)) \<noteq> None \<longrightarrow>
            moveHandler s sid payload rnd = (s, [PrivateError sid ''Cell already taken.'']))
    \<and> (turn r = sy \<and> winner r = None \<and> \<not> isDraw r \<and> indexInRange (mp_index payload)
          \<and> boardGet r (indexValue (mp_index payload)) = None \<longrightarrow>
            (\<exists>r' evs. moveHandler s sid payload rnd = (putRoom s rid r', evs @ [Broadcast rid (getState r')])
               \<and> r' = fst (afterMove r sy (indexValue (mp_index payload)) rid rnd)
               \<and> (\<forall>msg. PrivateError sid msg \<notin> set evs)))
    \<and> ((\<exists>msg. moveHandler s sid payload rnd = (s, [PrivateError sid msg])) =
         (turn r \<noteq> sy \<or> winner r \<noteq> None \<or> isDraw r \<or> \<not> indexInRange (mp_index payload)
          \<or> boardGet r (indexValue (mp_index payload)) \<noteq> None))"
proof -
  have acc: "snd (moveHandler s sid payload rnd) \<noteq> [PrivateError sid msg]"
    if "turn r = sy" "winner r = None" "\<not> isDraw r" "indexInRange (mp_index payload)"
      "boardGet r (indexValue (mp_index payload)) = None" for msg
    using that by (simp add: moveHandler_resolved [OF assms])
  have rej: "\<exists>msg. moveHandler s sid payload rnd = (s, [PrivateError sid msg])"
    if "turn r \<noteq> sy \<or> winner r \<noteq> None \<or> isDraw r \<or> \<not> indexInRange (mp_index payload)
          \<or> boardGet r (indexValue (mp_index payload)) \<noteq> None"
    using that by (auto simp: moveHandler_resolved [OF assms])
  have iff: "(\<exists>msg. moveHandler s sid payload rnd = (s, [PrivateError sid msg])) =
         (turn r \<noteq> sy \<or> winner r \<noteq> None \<or> isDraw r \<or> \<not> indexInRange (mp_index payload)
          \<or> boardGet r (indexValue (mp_index payload)) \<noteq> None)"
  proof
    assume "\<exists>msg. moveHandler s sid payload rnd = (s, [PrivateError sid msg])"
    then obtain msg where "snd (moveHandler s sid payload rnd) = [PrivateError sid msg]"
      by auto
    with acc show "turn r \<noteq> sy \<or> winner r \<noteq> None \<or> isDraw r \<or> \<not> indexInRange (mp_index payload)
          \<or> boardGet r (indexValue (mp_index payload)) \<noteq> None"
      by blast
  next
    assume "turn r \<noteq> sy \<or> winner r \<noteq> None \<or> isDraw r \<or> \<not> indexInRange (mp_index payload)
          \<or> boardGet r (indexValue (mp_index payload)) \<noteq> None"
    then show "\<exists>msg. moveHandler s sid payload rnd = (s, [PrivateError sid msg])"
      by (rule rej)
  qed
  have rest: "(turn r \<noteq> sy \<longrightarrow>
            moveHandler s sid payload rnd = (s, [PrivateError sid ''Not your turn.'']))
    \<and> (turn r = sy \<and> (winner r \<noteq> None \<or> isDraw r) \<longrightarrow>
            moveHandler s sid payload rnd = (s, [PrivateError sid ''Game is finished.'']))
    \<and> (turn r = sy \<and> winner r = None \<and> \<not> isDraw r \<and> \<not> indexInRange (mp_index payload) \<longrightarrow>
            moveHandler s sid payload rnd = (s, [PrivateError sid ''Invalid move.'']))
    \<and> (turn r = sy \<and> winner r = None \<and> \<not> isDraw r \<and> indexInRange (mp_index payload)
          \<and> boardGet r (indexValue (mp_index payload)) \<noteq> None \<longrightarrow>
            moveHandler s sid payload rnd = (s, [PrivateError sid ''Cell already taken.'']))
    \<and> (turn r = sy \<and> winner r = None \<and> \<not> isDraw r \<and> indexInRange (mp_index payload)
          \<and> boardGet r (indexValue (mp_index payload)) = None \<longrightarrow>
            (\<exists>r' evs. moveHandler s sid payload rnd = (putRoom s rid r', evs @ [Broadcast rid (getState r')])
               \<and> r' = fst (afterMove r sy (indexValue (mp_index payload)) rid rnd)
               \<and> (\<forall>msg. PrivateError sid msg \<notin> set evs)))"
    by (auto simp: moveHandler_resolved [OF assms] afterMove_events)
  from rest iff show ?thesis by blast
qed


lemma socketData_putRoom [simp]: "socketData (putRoom s rid r) sid = socketData s sid"
  by (simp add: socketData_def putRoom_def)

lemma pvp_move:
  assumes "rooms s rid = Some r" and "sd_roomId (socketData s sid) = Some rid"
    and "sd_symbol (socketData s sid) = Some sy" and "mode r = Pvp" and "turn r = sy"
    and "winner r = None" and "\<not> isDraw r" and "i < 9" and "length (board r) = 9"
    and "board r ! i = None"
  shows "moveHandler s sid \<lparr>mp_roomId = JOther, mp_index = JNumber (of_nat i)\<rparr> rnd =
     (putRoom s rid (applyMove r sy (of_nat i)), [Broadcast rid (getState (applyMove r sy (of_nat i)))])"
proof -
  let ?p = "\<lparr>mp_roomId = JOther, mp_index = JNumber (of_nat i)\<rparr>"
  have t: "sanitize (mp_roomId ?p) (sd_roomId (socketData s sid)) = Some rid"
    using assms(2) by (simp add: sanitize_def)
  have ix: "indexInRange (mp_index ?p)" "indexValue (mp_index ?p) = of_nat i"
    using assms(8) by (simp_all add: indexInRange_def indexValue_def)
  have bg: "boardGet r (of_nat i) = None"
    using assms(8-10) by (simp add: boardGet_def cellAt_def)
  show ?thesis
    using assms(4-7) ix bg
    by (simp add: moveHandler_resolved [OF t assms(1,3)] afterMove_def applyMove_fields)
qed

lemma applyMove_open:
  assumes "length (board r) = 9" and "i < 9"
  shows "board (applyMove r sy (of_nat i)) = (board r)[i := Some sy]"
    and "mode (applyMove r sy (of_nat i)) = mode r"
    and "winner (applyMove r sy (of_nat i)) = getWinner ((board r)[i := Some sy])"
    and "isDraw (applyMove r sy (of_nat i)) =
           (getWinner ((board r)[i := Some sy]) = None \<and> everyFilled ((board r)[i := Some sy]))"
    and "turn (applyMove r sy (of_nat i)) =
           (if getWinner ((board r)[i := Some sy]) = None \<and> \<not> everyFilled ((board r)[i := Some sy])
            then other (turn r) else turn r)"
  using assms by (simp_all add: applyMove_outcome applyMove_cell applyMove_fields)


text \<open>
  The run used below. Ann connects and joins the lobby (PvP, seat X), Bob connects
  and joins it (seat O); then Ann and Bob play cells 4, 0, 3, 1, 5 in turn, which
  completes the line 3, 4, 5 for X.
\<close>

lemma lobby_run:
  assumes pj_def: "pj = \<lparr>jp_roomId = JOther, jp_name = JString (lit ''Ann''), jp_mode = JOther,
                  jp_difficulty = JOther, jp_symbol = JOther\<rparr>"
    and pk_def: "pk = \<lparr>jp_roomId = JOther, jp_name = JString (lit ''Bob''), jp_mode = JOther,
                  jp_difficulty = JOther, jp_symbol = JOther\<rparr>"
    and mv_def: "mv = (\<lambda>i. \<lparr>mp_roomId = JOther, mp_index = JNumber (of_nat i)\<rparr>)"
    and s4_def: "s4 = handle (handle (handle (handle initial (Connect ''a'')) (Join ''a'' pj False 0))
                  (Connect ''b'')) (Join ''b'' pk False 0)"
    and s5_def: "s5 = handle s4 (Move ''a'' (mv 4) 0)"
    and s9_def: "s9 = handle (handle (handle (handle s5 (Move ''b'' (mv 0) 0)) (Move ''a'' (mv 3) 0))
                  (Move ''b'' (mv 1) 0)) (Move ''a'' (mv 5) 0)"
  shows "reachable s4 \<and> reachable s5 \<and> reachable s9"
    and "\<exists>r. rooms s4 (lit ''lobby'') = Some r \<and> mode r = Pvp \<and> turn r = SymX \<and> winner r = None
          \<and> \<not> isDraw r \<and> board r = emptyBoard"
    and "\<exists>r. rooms s5 (lit ''lobby'') = Some r \<and> mode r = Pvp \<and> turn r = SymO \<and> winner r = None
          \<and> \<not> isDraw r \<and> board r = emptyBoard[4 := Some SymX]"
    and "\<exists>r. rooms s9 (lit ''lobby'') = Some r \<and> mode r = Pvp \<and> turn r = SymX \<and> winner r = Some SymX
          \<and> board r = [Some SymO, Some SymO, None, Some SymX, Some SymX, Some SymX, None, None, None]"
    and "socks s9 = socks s4" and "socks s5 = socks s4"
    and "rooms s4 (lit ''zzz'') = None"
    and "socketData s4 ''a'' = \<lparr>sd_roomId = Some (lit ''lobby''), sd_symbol = Some SymX, sd_name = Some (lit ''Ann'')\<rparr>"
    and "socketData s4 ''b'' = \<lparr>sd_roomId = Some (lit ''lobby''), sd_symbol = Some SymO, sd_name = Some (lit ''Bob'')\<rparr>"
proof -
  let ?L = "lit ''lobby''"
  define s1 where "s1 = handle initial (Connect ''a'')"
  define s2 where "s2 = handle s1 (Join ''a'' pj False 0)"
  define s3 where "s3 = handle s2 (Connect ''b'')"
  define s6 where "s6 = handle s5 (Move ''b'' (mv 0) 0)"
  define s7 where "s7 = handle s6 (Move ''a'' (mv 3) 0)"
  define s8 where "s8 = handle s7 (Move ''b'' (mv 1) 0)"
  have s4: "s4 = handle s3 (Join ''b'' pk False 0)"
    by (simp add: s4_def s3_def s2_def s1_def)
  have s9: "s9 = handle s8 (Move ''a'' (mv 5) 0)"
    by (simp add: s9_def s8_def s7_def s6_def)
  define rA where "rA = takeSeat (createRoom ?L) SymX ''a'' (lit ''Ann'')"
  define rB where "rB = takeSeat rA SymO ''b'' (lit ''Bob'')"
  define r5 where "r5 = applyMove rB SymX (of_nat 4)"
  define r6 where "r6 = applyMove r5 SymO (of_nat 0)"
  define r7 where "r7 = applyMove r6 SymX (of_nat 3)"
  define r8 where "r8 = applyMove r7 SymO (of_nat 1)"
  define r9 where "r9 = applyMove r8 SymX (of_nat 5)"
  have n: "sanitizeStr (jp_roomId pj) ?L = ?L" "sanitizeStr (jp_name pj) [] = lit ''Ann''"
    "normalizeMode (jp_mode pj) = Pvp" "lit ''Ann'' \<noteq> []"
    "sanitizeStr (jp_roomId pk) ?L = ?L" "sanitizeStr (jp_name pk) [] = lit ''Bob''"
    "normalizeMode (jp_mode pk) = Pvp" "lit ''Bob'' \<noteq> []"
    by (simp_all add: pj_def pk_def sanitizeStr_def sanitize_def trim_def isSpace_def lit_def
        normalizeMode_def)
  have e1: "rooms s1 = Map.empty" "socks s1 = [''a'' \<mapsto> noData]"
    by (simp_all add: s1_def initial_def)
  have e2: "s2 = bindSocket (putRoom s1 ?L rA) ''a'' ?L SymX (lit ''Ann'')"
    unfolding s2_def rA_def handle.simps
    by (rule joinHandler_pvp_fresh [OF _ n(1,2,4,3)]) (simp add: e1)
  have e3: "rooms s3 ?L = Some rA" "socks s3 ''b'' = Some noData"
    "socks s3 ''a'' = Some \<lparr>sd_roomId = Some ?L, sd_symbol = Some SymX, sd_name = Some (lit ''Ann'')\<rparr>"
    by (simp_all add: s3_def e2 bindSocket_def putRoom_def)
  have fA: "mode rA = Pvp" "hasHuman rA" "players rA SymX \<noteq> None" "players rA SymO = None"
    by (simp_all add: rA_def takeSeat_def createRoom_def hasHuman_def isBot_def)
  have e4: "s4 = bindSocket (putRoom s3 ?L rB) ''b'' ?L SymO (lit ''Bob'')"
    unfolding s4 rB_def handle.simps
    by (simp add: joinHandler_pvp_second_seat [OF e3(1) fA n(5,6,8,7)])
  have k4: "rooms s4 ?L = Some rB"
    and a4: "socketData s4 ''a'' = \<lparr>sd_roomId = Some ?L, sd_symbol = Some SymX, sd_name = Some (lit ''Ann'')\<rparr>"
    and b4: "socketData s4 ''b'' = \<lparr>sd_roomId = Some ?L, sd_symbol = Some SymO, sd_name = Some (lit ''Bob'')\<rparr>"
    by (simp_all add: e4 bindSocket_def putRoom_def socketData_def e3)
  have c4: "socks s4 ''a'' \<noteq> None" "socks s4 ''b'' \<noteq> None"
    by (simp_all add: e4 bindSocket_def putRoom_def e3)
  have eb: "emptyBoard = [None, None, None, None, None, None, None, None, None]"
    by (simp add: emptyBoard_def numeral_eq_Suc)
  have fB: "mode rB = Pvp" "turn rB = SymX" "winner rB = None" "\<not> isDraw rB" "board rB = emptyBoard"
    by (simp_all add: rB_def rA_def takeSeat_fields createRoom_def)
  have f5: "mode r5 = Pvp" "turn r5 = SymO" "winner r5 = None" "\<not> isDraw r5"
    "board r5 = [None, None, None, None, Some SymX, None, None, None, None]"
    using applyMove_open [of rB 4 SymX]
    by (simp_all add: r5_def fB eb getWinner_def winLines_def cellAt_def everyFilled_def other_def)
  have f6: "mode r6 = Pvp" "turn r6 = SymX" "winner r6 = None" "\<not> isDraw r6"
    "board r6 = [Some SymO, None, None, None, Some SymX, None, None, None, None]"
    using applyMove_open [of r5 0 SymO]
    by (simp_all add: r6_def f5 getWinner_def winLines_def cellAt_def everyFilled_def other_def)
  have f7: "mode r7 = Pvp" "turn r7 = SymO" "winner r7 = None" "\<not> isDraw r7"
    "board r7 = [Some SymO, None, None, Some SymX, Some SymX, None, None, None, None]"
    using applyMove_open [of r6 3 SymX]
    by (simp_all add: r7_def f6 getWinner_def winLines_def cellAt_def everyFilled_def other_def)
  have f8: "mode r8 = Pvp" "turn r8 = SymX" "winner r8 = None" "\<not> isDraw r8"
    "board r8 = [Some SymO, Some SymO, None, Some SymX, Some SymX, None, None, None, None]"
    using applyMove_open [of r7 1 SymO]
    by (simp_all add: r8_def f7 getWinner_def winLines_def cellAt_def everyFilled_def other_def)
  have f9: "mode r9 = Pvp" "turn r9 = SymX" "winner r9 = Some SymX"
    "board r9 = [Some SymO, Some SymO, None, Some SymX, Some SymX, Some SymX, None, None, None]"
    using applyMove_open [of r8 5 SymX]
    by (simp_all add: r9_def f8 getWinner_def winLines_def cellAt_def everyFilled_def other_def)
  have e5: "s5 = putRoom s4 ?L r5"
    using pvp_move [OF k4 _ _ fB(1,2,3,4), of "''a''" 4 0]
    by (simp add: s5_def r5_def mv_def a4 fB eb)
  have k5: "rooms s5 ?L = Some r5" by (simp add: e5 putRoom_def)
  have d5: "socketData s5 = socketData s4" by (simp add: e5 fun_eq_iff)
  have e6: "s6 = putRoom s5 ?L r6"
    using pvp_move [OF k5 _ _ f5(1,2,3,4), of "''b''" 0 0]
    by (simp add: s6_def r6_def mv_def d5 b4 f5)
  have k6: "rooms s6 ?L = Some r6" by (simp add: e6 putRoom_def)
  have d6: "socketData s6 = socketData s4" by (simp add: e6 fun_eq_iff d5)
  have e7: "s7 = putRoom s6 ?L r7"
    using pvp_move [OF k6 _ _ f6(1,2,3,4), of "''a''" 3 0]
    by (simp add: s7_def r7_def mv_def d6 a4 f6)
  have k7: "rooms s7 ?L = Some r7" by (simp add: e7 putRoom_def)
  have d7: "socketData s7 = socketData s4" by (simp add: e7 fun_eq_iff d6)
  have e8: "s8 = putRoom s7 ?L r8"
    using pvp_move [OF k7 _ _ f7(1,2,3,4), of "''b''" 1 0]
    by (simp add: s8_def r8_def mv_def d7 b4 f7)
  have k8: "rooms s8 ?L = Some r8" by (simp add: e8 putRoom_def)
  have d8: "socketData s8 = socketData s4" by (simp add: e8 fun_eq_iff d7)
  have e9: "s9 = putRoom s8 ?L r9"
    using pvp_move [OF k8 _ _ f8(1,2,3,4), of "''a''" 5 0]
    by (simp add: s9 r9_def mv_def d8 a4 f8)
  have k9: "rooms s9 ?L = Some r9" by (simp add: e9 putRoom_def)
  have sk: "socks s5 = socks s4" "socks s6 = socks s4" "socks s7 = socks s4" "socks s8 = socks s4"
    "socks s9 = socks s4"
    by (simp_all add: e5 e6 e7 e8 e9 putRoom_def)
  have r1: "reachable s1"
    unfolding s1_def by (rule reachable.step [OF reachable.start]) (simp add: initial_def)
  have r2: "reachable s2"
    unfolding s2_def by (rule reachable.step [OF r1]) (simp add: e1)
  have r3: "reachable s3"
    unfolding s3_def by (rule reachable.step [OF r2]) (simp add: e2 bindSocket_def putRoom_def e1)
  have r4: "reachable s4"
    unfolding s4 by (rule reachable.step [OF r3]) (simp add: e3)
  have r5: "reachable s5"
    unfolding s5_def by (rule reachable.step [OF r4]) (simp add: c4)
  have r6: "reachable s6"
    unfolding s6_def by (rule reachable.step [OF r5]) (simp add: sk c4)
  have r7: "reachable s7"
    unfolding s7_def by (rule reachable.step [OF r6]) (simp add: sk c4)
  have r8: "reachable s8"
    unfolding s8_def by (rule reachable.step [OF r7]) (simp add: sk c4)
  have r9: "reachable s9"
    unfolding s9 by (rule reachable.step [OF r8]) (simp add: sk c4)
  show "reachable s4 \<and> reachable s5 \<and> reachable s9"
    using r4 r5 r9 by simp
  show "\<exists>r. rooms s4 (lit ''lobby'') = Some r \<and> mode r = Pvp \<and> turn r = SymX \<and> winner r = None
          \<and> \<not> isDraw r \<and> board r = emptyBoard"
    using k4 fB by simp
  show "\<exists>r. rooms s5 (lit ''lobby'') = Some r \<and> mode r = Pvp \<and> turn r = SymO \<and> winner r = None
          \<and> \<not> isDraw r \<and> board r = emptyBoard[4 := Some SymX]"
    using k5 f5 by (simp add: eb)
  show "socketData s4 ''a'' = \<lparr>sd_roomId = Some (lit ''lobby''), sd_symbol = Some SymX, sd_name = Some (lit ''Ann'')\<rparr>"
    by (rule a4)
  show "socketData s4 ''b'' = \<lparr>sd_roomId = Some (lit ''lobby''), sd_symbol = Some SymO, sd_name = Some (lit ''Bob'')\<rparr>"
    by (rule b4)
  show "socks s5 = socks s4" by (rule sk)
  show "rooms s4 (lit ''zzz'') = None"
    by (simp add: e4 bindSocket_def putRoom_def s3_def e2 e1)
  show "socks s9 = socks s4" by (rule sk)
  show "\<exists>r. rooms s9 (lit ''lobby'') = Some r \<and> mode r = Pvp \<and> turn r = SymX \<and> winner r = Some SymX
          \<and> board r = [Some SymO, Some SymO, None, Some SymX, Some SymX, Some SymX, None, None, None]"
    using k9 f9 by simp
qed


text \<open>
  C5, as the code has it. A move request whose payload is \<^verbatim>\<open>null\<close> is not answered:
  the handler throws. For any other request, \<open>target\<close> is the room identifier the
  handler resolves (the payload's, else the binding's). The checks run in this order,
  each with its own message: no room stored under \<open>target\<close> or no symbol bound to
  the connection ("Join a room first."); not the requester's turn; outcome decided;
  index not in [0,8]; target cell occupied. A rejection returns the server state
  unchanged and emits exactly one event, the private error to the requester, so
  nothing is broadcast; and a request is rejected exactly when one of the five checks
  fires. When none fires the move is accepted: the room is replaced by the room
  after the move, a snapshot is broadcast and no error is emitted.
\<close>

theorem move_validation_order:
  assumes "target = sanitize (mp_roomId payload) (sd_roomId (socketData s sid))"
  shows "moveRequest s sid None rnd = None
    \<and> moveRequest s sid (Some payload) rnd = Some (moveHandler s sid payload rnd)
    \<and> (roomsGet s target = None \<or> sd_symbol (socketData s sid) = None \<longrightarrow>
          moveHandler s sid payload rnd = (s, [PrivateError sid ''Join a room first.'']))
    \<and> (\<forall>rid r sy. target = Some rid \<and> rooms s rid = Some r \<and> sd_symbol (socketData s sid) = Some sy \<longrightarrow>
          (turn r \<noteq> sy \<longrightarrow>
              moveHandler s sid payload rnd = (s, [PrivateError sid ''Not your turn.'']))
        \<and> (turn r = sy \<and> (winner r \<noteq> None \<or> isDraw r) \<longrightarrow>
              moveHandler s sid payload rnd = (s, [PrivateError sid ''Game is finished.'']))
        \<and> (turn r = sy \<and> winner r = None \<and> \<not> isDraw r \<and> \<not> indexInRange (mp_index payload) \<longrightarrow>
              moveHandler s sid payload rnd = (s, [PrivateError sid ''Invalid move.'']))
        \<and> (turn r = sy \<and> winner r = None \<and> \<not> isDraw r \<and> indexInRange (mp_index payload)
              \<and> boardGet r (indexValue (mp_index payload)) \<noteq> None \<longrightarrow>
              moveHandler s sid payload rnd = (s, [PrivateError sid ''Cell already taken.'']))
        \<and> (turn r = sy \<and> winner r = None \<and> \<not> isDraw r \<and> indexInRange (mp_index payload)
              \<and> boardGet r (indexValue (mp_index payload)) = None \<longrightarrow>
              (\<exists>r' evs. moveHandler s sid payload rnd = (putRoom s rid r', evs @ [Broadcast rid (getState r')])
                 \<and> r' = fst (afterMove r sy (indexValue (mp_index payload)) rid rnd)
                 \<and> (\<forall>msg. PrivateError sid msg \<notin> set evs)))
        \<and> ((\<exists>msg. moveHandler s sid payload rnd = (s, [PrivateError sid msg])) =
             (turn r \<noteq> sy \<or> winner r \<noteq> None \<or> isDraw r \<or> \<not> indexInRange (mp_index payload)
              \<or> boardGet r (indexValue (mp_index payload)) \<noteq> None)))"
proof -
  have a: "moveRequest s sid None rnd = None"
    "moveRequest s sid (Some payload) rnd = Some (moveHandler s sid payload rnd)"
    by (simp_all add: moveRequest_def)
  have b: "roomsGet s target = None \<or> sd_symbol (socketData s sid) = None \<longrightarrow>
          moveHandler s sid payload rnd = (s, [PrivateError sid ''Join a room first.''])"
    unfolding assms by (rule impI) (rule moveHandler_unresolved)
  have c: "(turn r \<noteq> sy \<longrightarrow>
              moveHandler s sid payload rnd = (s, [PrivateError sid ''Not your turn.'']))
        \<and> (turn r = sy \<and> (winner r \<noteq> None \<or> isDraw r) \<longrightarrow>
              moveHandler s sid payload rnd = (s, [PrivateError sid ''Game is finished.'']))
        \<and> (turn r = sy \<and> winner r = None \<and> \<not> isDraw r \<and> \<not> indexInRange (mp_index payload) \<longrightarrow>
              moveHandler s sid payload rnd = (s, [PrivateError sid ''Invalid move.'']))
        \<and> (turn r = sy \<and> winner r = None \<and> \<not> isDraw r \<and> indexInRange (mp_index payload)
              \<and> boardGet r (indexValue (mp_index payload)) \<noteq> None \<longrightarrow>
              moveHandler s sid payload rnd = (s, [PrivateError sid ''Cell already taken.'']))
        \<and> (turn r = sy \<and> winner r = None \<and> \<not> isDraw r \<and> indexInRange (mp_index payload)
              \<and> boardGet r (indexValue (mp_index payload)) = None \<longrightarrow>
              (\<exists>r' evs. moveHandler s sid payload rnd = (putRoom s rid r', evs @ [Broadcast rid (getState r')])
                 \<and> r' = fst (afterMove r sy (indexValue (mp_index payload)) rid rnd)
                 \<and> (\<forall>msg. PrivateError sid msg \<notin> set evs)))
        \<and> ((\<exists>msg. moveHandler s sid payload rnd = (s, [PrivateError sid msg])) =
             (turn r \<noteq> sy \<or> winner r \<noteq> None \<or> isDraw r \<or> \<not> indexInRange (mp_index payload)
              \<or> boardGet r (indexValue (mp_index payload)) \<noteq> None))"
    if "target = Some rid" "rooms s rid = Some r" "sd_symbol (socketData s sid) = Some sy" for rid r sy
    using that(1) unfolding assms by (rule moveHandler_checks [OF _ that(2,3)])
  have d: "\<forall>rid r sy. target = Some rid \<and> rooms s rid = Some r \<and> sd_symbol (socketData s sid) = Some sy \<longrightarrow>
          (turn r \<noteq> sy \<longrightarrow>
              moveHandler s sid payload rnd = (s, [PrivateError sid ''Not your turn.'']))
        \<and> (turn r = sy \<and> (winner r \<noteq> None \<or> isDraw r) \<longrightarrow>
              moveHandler s sid payload rnd = (s, [PrivateError sid ''Game is finished.'']))
        \<and> (turn r = sy \<and> winner r = None \<and> \<not> isDraw r \<and> \<not> indexInRange (mp_index payload) \<longrightarrow>
              moveHandler s sid payload rnd = (s, [PrivateError sid ''Invalid move.'']))
        \<and> (turn r = sy \<and> winner r = None \<and> \<not> isDraw r \<and> indexInRange (mp_index payload)
              \<and> boardGet r (indexValue (mp_index payload)) \<noteq> None \<longrightarrow>
              moveHandler s sid payload rnd = (s, [PrivateError sid ''Cell already taken.'']))
        \<and> (turn r = sy \<and> winner r = None \<and> \<not> isDraw r \<and> indexInRange (mp_index payload)
              \<and> boardGet r (indexValue (mp_index payload)) = None \<longrightarrow>
              (\<exists>r' evs. moveHandler s sid payload rnd = (putRoom s rid r', evs @ [Broadcast rid (getState r')])
                 \<and> r' = fst (afterMove r sy (indexValue (mp_index payload)) rid rnd)
                 \<and> (\<forall>msg. PrivateError sid msg \<notin> set evs)))
        \<and> ((\<exists>msg. moveHandler s sid payload rnd = (s, [PrivateError sid msg])) =
             (turn r \<noteq> sy \<or> winner r \<noteq> None \<or> isDraw r \<or> \<not> indexInRange (mp_index payload)
              \<or> boardGet r (indexValue (mp_index payload)) \<noteq> None))"
  proof (intro allI impI)
    fix rid r sy
    assume h: "target = Some rid \<and> rooms s rid = Some r \<and> sd_symbol (socketData s sid) = Some sy"
    then have h1: "target = Some rid" and h2: "rooms s rid = Some r"
      and h3: "sd_symbol (socketData s sid) = Some sy"
      by simp_all
    show "(turn r \<noteq> sy \<longrightarrow>
              moveHandler s sid payload rnd = (s, [PrivateError sid ''Not your turn.'']))
        \<and> (turn r = sy \<and> (winner r \<noteq> None \<or> isDraw r) \<longrightarrow>
              moveHandler s sid payload rnd = (s, [PrivateError sid ''Game is finished.'']))
        \<and> (turn r = sy \<and> winner r = None \<and> \<not> isDraw r \<and> \<not> indexInRange (mp_index payload) \<longrightarrow>
              moveHandler s sid payload rnd = (s, [PrivateError sid ''Invalid move.'']))
        \<and> (turn r = sy \<and> winner r = None \<and> \<not> isDraw r \<and> indexInRange (mp_index payload)
              \<and> boardGet r (indexValue (mp_index payload)) \<noteq> None \<longrightarrow>
              moveHandler s sid payload rnd = (s, [PrivateError sid ''Cell already taken.'']))
        \<and> (turn r = sy \<and> winner r = None \<and> \<not> isDraw r \<and> indexInRange (mp_index payload)
              \<and> boardGet r (indexValue (mp_index payload)) = None \<longrightarrow>
              (\<exists>r' evs. moveHandler s sid payload rnd = (putRoom s rid r', evs @ [Broadcast rid (getState r')])
                 \<and> r' = fst (afterMove r sy (indexValue (mp_index payload)) rid rnd)
                 \<and> (\<forall>msg. PrivateError sid msg \<notin> set evs)))
        \<and> ((\<exists>msg. moveHandler s sid payload rnd = (s, [PrivateError sid msg])) =
             (turn r \<noteq> sy \<or> winner r \<noteq> None \<or> isDraw r \<or> \<not> indexInRange (mp_index payload)
              \<or> boardGet r (indexValue (mp_index payload)) \<noteq> None))"
      by (rule c [OF h1 h2 h3])
  qed
  show ?thesis
    by (rule conjI [OF a(1) conjI [OF a(2) conjI [OF b d]]])
qed

text \<open>
  The claim as stated fails. Ann has joined the lobby as X; it is her turn, the game
  is undecided and cell 4 is empty, so none of the four listed reasons applies. She
  sends the move with \<^verbatim>\<open>roomId: 'zzz'\<close>, a room that does not exist: the request is
  rejected with "Join a room first.", a fifth reason.
\<close>

theorem move_unknown_room_counterexample:
  "(let pj = \<lparr>jp_roomId = JOther, jp_name = JString (lit ''Ann''), jp_mode = JOther,
               jp_difficulty = JOther, jp_symbol = JOther\<rparr>;
        s2 = handle (handle initial (Connect ''a'')) (Join ''a'' pj False 0);
        mv = \<lparr>mp_roomId = JString (lit ''zzz''), mp_index = JNumber 4\<rparr>;
        r = the (rooms s2 (lit ''lobby''))
    in reachable s2 \<and> rooms s2 (lit ''lobby'') \<noteq> None
       \<and> sd_roomId (socketData s2 ''a'') = Some (lit ''lobby'')
       \<and> sd_symbol (socketData s2 ''a'') = Some SymX
       \<and> turn r = SymX \<and> winner r = None \<and> \<not> isDraw r
       \<and> indexInRange (mp_index mv) \<and> boardGet r (indexValue (mp_index mv)) = None
       \<and> moveHandler s2 ''a'' mv 0 = (s2, [PrivateError ''a'' ''Join a room first.'']))"
proof -
  define pj where "pj = \<lparr>jp_roomId = JOther, jp_name = JString (lit ''Ann''), jp_mode = JOther,
               jp_difficulty = JOther, jp_symbol = JOther\<rparr>"
  define s1 where "s1 = handle initial (Connect ''a'')"
  define s2 where "s2 = handle s1 (Join ''a'' pj False 0)"
  define mv where "mv = \<lparr>mp_roomId = JString (lit ''zzz''), mp_index = JNumber 4\<rparr>"
  define rA where "rA = takeSeat (createRoom (lit ''lobby'')) SymX ''a'' (lit ''Ann'')"
  have n: "sanitizeStr (jp_roomId pj) (lit ''lobby'') = lit ''lobby''"
    "sanitizeStr (jp_name pj) [] = lit ''Ann''" "lit ''Ann'' \<noteq> []" "normalizeMode (jp_mode pj) = Pvp"
    by (simp_all add: pj_def sanitizeStr_def sanitize_def trim_def isSpace_def lit_def normalizeMode_def)
  have e1: "rooms s1 = Map.empty" "socks s1 ''a'' = Some noData"
    by (simp_all add: s1_def initial_def)
  have e2: "s2 = bindSocket (putRoom s1 (lit ''lobby'') rA) ''a'' (lit ''lobby'') SymX (lit ''Ann'')"
    unfolding s2_def rA_def handle.simps
    by (rule joinHandler_pvp_fresh [OF _ n]) (simp add: e1)
  have r1: "reachable s1"
    unfolding s1_def by (rule reachable.step [OF reachable.start]) (simp add: initial_def)
  have r2: "reachable s2"
    unfolding s2_def by (rule reachable.step [OF r1]) (simp add: e1)
  have f2: "rooms s2 (lit ''lobby'') = Some rA" "rooms s2 (lit ''zzz'') = None"
    "sd_roomId (socketData s2 ''a'') = Some (lit ''lobby'')"
    "sd_symbol (socketData s2 ''a'') = Some SymX"
    by (simp_all add: e2 bindSocket_def putRoom_def socketData_def e1)
  have ai: "isArrayIndex 4" "arrayIndex 4 = 4"
    using isArrayIndex_of_nat [of 4] arrayIndex_of_nat [of 4] by simp_all
  have fA: "turn rA = SymX" "winner rA = None" "\<not> isDraw rA" "indexInRange (mp_index mv)"
    "boardGet rA (indexValue (mp_index mv)) = None"
    by (simp_all add: rA_def takeSeat_fields createRoom_def mv_def indexInRange_def indexValue_def
        boardGet_def ai cellAt_def emptyBoard_def)
  have t: "sanitize (mp_roomId mv) (sd_roomId (socketData s2 ''a'')) = Some (lit ''zzz'')"
    by (simp add: mv_def sanitize_def trim_def isSpace_def lit_def)
  have "moveHandler s2 ''a'' mv 0 = (s2, [PrivateError ''a'' ''Join a room first.''])"
    by (rule moveHandler_unresolved) (simp add: t [unfolded f2(3)] roomsGet_def f2)
  with r2 f2 fA have "reachable s2 \<and> rooms s2 (lit ''lobby'') \<noteq> None
       \<and> sd_roomId (socketData s2 ''a'') = Some (lit ''lobby'')
       \<and> sd_symbol (socketData s2 ''a'') = Some SymX
       \<and> turn (the (rooms s2 (lit ''lobby''))) = SymX \<and> winner (the (rooms s2 (lit ''lobby''))) = None
       \<and> \<not> isDraw (the (rooms s2 (lit ''lobby'')))
       \<and> indexInRange (mp_index mv)
       \<and> boardGet (the (rooms s2 (lit ''lobby''))) (indexValue (mp_index mv)) = None
       \<and> moveHandler s2 ''a'' mv 0 = (s2, [PrivateError ''a'' ''Join a room first.''])"
    by simp
  then show ?thesis
    unfolding s2_def s1_def pj_def mv_def Let_def .
qed

theorem move_validation_order_witness:
  "(let pj = \<lparr>jp_roomId = JOther, jp_name = JString (lit ''Ann''), jp_mode = JOther,
               jp_difficulty = JOther, jp_symbol = JOther\<rparr>;
        pk = \<lparr>jp_roomId = JOther, jp_name = JString (lit ''Bob''), jp_mode = JOther,
               jp_difficulty = JOther, jp_symbol = JOther\<rparr>;
        mv = (\<lambda>i. \<lparr>mp_roomId = JOther, mp_index = JNumber (of_nat i)\<rparr>);
        s4 = handle (handle (handle (handle initial (Connect ''a'')) (Join ''a'' pj False 0))
               (Connect ''b'')) (Join ''b'' pk False 0);
        s5 = handle s4 (Move ''a'' (mv 4) 0);
        s9 = handle (handle (handle (handle s5 (Move ''b'' (mv 0) 0)) (Move ''a'' (mv 3) 0))
               (Move ''b'' (mv 1) 0)) (Move ''a'' (mv 5) 0)
    in reachable s4 \<and> reachable s5 \<and> reachable s9
       \<and> moveRequest s4 ''a'' None 0 = None
       \<and> moveHandler s4 ''a'' \<lparr>mp_roomId = JString (lit ''zzz''), mp_index = JNumber 4\<rparr> 0 =
            (s4, [PrivateError ''a'' ''Join a room first.''])
       \<and> moveHandler s4 ''b'' (mv 4) 0 = (s4, [PrivateError ''b'' ''Not your turn.''])
       \<and> moveHandler s9 ''a'' (mv 8) 0 = (s9, [PrivateError ''a'' ''Game is finished.''])
       \<and> moveHandler s4 ''a'' (mv 9) 0 = (s4, [PrivateError ''a'' ''Invalid move.''])
       \<and> moveHandler s5 ''b'' (mv 4) 0 = (s5, [PrivateError ''b'' ''Cell already taken.''])
       \<and> board (the (rooms s4 (lit ''lobby''))) = emptyBoard
       \<and> board (the (rooms s5 (lit ''lobby''))) = emptyBoard[4 := Some SymX])"
proof -
  define pj where "pj = \<lparr>jp_roomId = JOther, jp_name = JString (lit ''Ann''), jp_mode = JOther,
               jp_difficulty = JOther, jp_symbol = JOther\<rparr>"
  define pk where "pk = \<lparr>jp_roomId = JOther, jp_name = JString (lit ''Bob''), jp_mode = JOther,
               jp_difficulty = JOther, jp_symbol = JOther\<rparr>"
  define mv where "mv = (\<lambda>i. \<lparr>mp_roomId = JOther, mp_index = JNumber (of_nat i)\<rparr>)"
  define s4 where "s4 = handle (handle (handle (handle initial (Connect ''a'')) (Join ''a'' pj False 0))
               (Connect ''b'')) (Join ''b'' pk False 0)"
  define s5 where "s5 = handle s4 (Move ''a'' (mv 4) 0)"
  define s9 where "s9 = handle (handle (handle (handle s5 (Move ''b'' (mv 0) 0)) (Move ''a'' (mv 3) 0))
               (Move ''b'' (mv 1) 0)) (Move ''a'' (mv 5) 0)"
  define far where "far = \<lparr>mp_roomId = JString (lit ''zzz''), mp_index = JNumber 4\<rparr>"
  note run = lobby_run [OF pj_def pk_def mv_def s4_def s5_def s9_def]
  from run(2) obtain r4 where r4: "rooms s4 (lit ''lobby'') = Some r4" "mode r4 = Pvp" "turn r4 = SymX"
    "winner r4 = None" "\<not> isDraw r4" "board r4 = emptyBoard"
    by blast
  from run(3) obtain r5 where r5: "rooms s5 (lit ''lobby'') = Some r5" "mode r5 = Pvp" "turn r5 = SymO"
    "winner r5 = None" "\<not> isDraw r5" "board r5 = emptyBoard[4 := Some SymX]"
    by blast
  from run(4) obtain r9 where r9: "rooms s9 (lit ''lobby'') = Some r9" "mode r9 = Pvp" "turn r9 = SymX"
    "winner r9 = Some SymX"
    by blast
  have sd: "socketData s5 = socketData s4" "socketData s9 = socketData s4"
    by (simp_all add: socketData_def fun_eq_iff run(5,6))
  have t: "sanitize (mp_roomId (mv i)) (sd_roomId (socketData s4 ''a'')) = Some (lit ''lobby'')"
    "sanitize (mp_roomId (mv i)) (sd_roomId (socketData s4 ''b'')) = Some (lit ''lobby'')"
    "sanitize (mp_roomId far) (sd_roomId (socketData s4 ''a'')) = Some (lit ''zzz'')" for i
    by (simp_all add: mv_def far_def sanitize_def run(8,9) trim_def isSpace_def lit_def)
  have sy: "sd_symbol (socketData s4 ''a'') = Some SymX" "sd_symbol (socketData s4 ''b'') = Some SymO"
    by (simp_all add: run(8,9))
  have ix: "\<not> indexInRange (mp_index (mv 9))" "indexInRange (mp_index (mv 4))"
    "indexValue (mp_index (mv 4)) = 4"
    by (simp_all add: mv_def indexInRange_def indexValue_def)
  have ai: "isArrayIndex 4" "arrayIndex 4 = 4"
    using isArrayIndex_of_nat [of 4] arrayIndex_of_nat [of 4] by simp_all
  have bg: "boardGet r5 4 \<noteq> None"
    by (simp add: boardGet_def ai cellAt_def r5 emptyBoard_def)
  note z = run(7)
  have c0: "moveRequest s4 ''a'' None 0 = None"
    using move_validation_order [OF refl, of s4 "''a''" 0 "mv 4"] by simp
  have c1: "moveHandler s4 ''a'' far 0 = (s4, [PrivateError ''a'' ''Join a room first.''])"
    using move_validation_order [OF refl, of s4 "''a''" 0 far] by (simp add: t roomsGet_def z)
  have c2: "moveHandler s4 ''b'' (mv 4) 0 = (s4, [PrivateError ''b'' ''Not your turn.''])"
    using move_validation_order [OF refl, of s4 "''b''" 0 "mv 4"] r4 by (simp add: t sy)
  have c3: "moveHandler s9 ''a'' (mv 8) 0 = (s9, [PrivateError ''a'' ''Game is finished.''])"
    using move_validation_order [OF refl, of s9 "''a''" 0 "mv 8"] r9 by (simp add: sd t sy)
  have c4: "moveHandler s4 ''a'' (mv 9) 0 = (s4, [PrivateError ''a'' ''Invalid move.''])"
    using move_validation_order [OF refl, of s4 "''a''" 0 "mv 9"] r4 ix by (simp add: t sy)
  have c5: "moveHandler s5 ''b'' (mv 4) 0 = (s5, [PrivateError ''b'' ''Cell already taken.''])"
    using move_validation_order [OF refl, of s5 "''b''" 0 "mv 4"] r5 ix bg by (simp add: sd t sy)
  from run(1) c0 c1 c2 c3 c4 c5 r4 r5
  have "reachable s4 \<and> reachable s5 \<and> reachable s9
       \<and> moveRequest s4 ''a'' None 0 = None
       \<and> moveHandler s4 ''a'' far 0 = (s4, [PrivateError ''a'' ''Join a room first.''])
       \<and> moveHandler s4 ''b'' (mv 4) 0 = (s4, [PrivateError ''b'' ''Not your turn.''])
       \<and> moveHandler s9 ''a'' (mv 8) 0 = (s9, [PrivateError ''a'' ''Game is finished.''])
       \<and> moveHandler s4 ''a'' (mv 9) 0 = (s4, [PrivateError ''a'' ''Invalid move.''])
       \<and> moveHandler s5 ''b'' (mv 4) 0 = (s5, [PrivateError ''b'' ''Cell already taken.''])
       \<and> board (the (rooms s4 (lit ''lobby''))) = emptyBoard
       \<and> board (the (rooms s5 (lit ''lobby''))) = emptyBoard[4 := Some SymX]"
    by simp
  then show ?thesis
    unfolding s9_def s5_def s4_def mv_def pj_def pk_def far_def Let_def .
qed

section \<open>Room resolution of a move (C3)\<close>

text \<open>
  The run used below. Pat connects and joins room a, Quin connects and joins room b,
  each as X of a fresh PvP room.
\<close>

lemma two_rooms_run:
  assumes pa_def: "pa = \<lparr>jp_roomId = JString (lit ''a''), jp_name = JString (lit ''Pat''),
                  jp_mode = JOther, jp_difficulty = JOther, jp_symbol = JOther\<rparr>"
    and pb_def: "pb = \<lparr>jp_roomId = JString (lit ''b''), jp_name = JString (lit ''Quin''),
                  jp_mode = JOther, jp_difficulty = JOther, jp_symbol = JOther\<rparr>"
    and s_def: "s = handle (handle (handle (handle initial (Connect ''p'')) (Join ''p'' pa False 0))
                  (Connect ''q'')) (Join ''q'' pb False 0)"
  shows "reachable s"
    and "rooms s (lit ''a'') = Some (takeSeat (createRoom (lit ''a'')) SymX ''p'' (lit ''Pat''))"
    and "rooms s (lit ''b'') = Some (takeSeat (createRoom (lit ''b'')) SymX ''q'' (lit ''Quin''))"
    and "socketData s ''p'' = \<lparr>sd_roomId = Some (lit ''a''), sd_symbol = Some SymX, sd_name = Some (lit ''Pat'')\<rparr>"
proof -
  define s1 where "s1 = handle initial (Connect ''p'')"
  define s2 where "s2 = handle s1 (Join ''p'' pa False 0)"
  define s3 where "s3 = handle s2 (Connect ''q'')"
  have s4: "s = handle s3 (Join ''q'' pb False 0)"
    by (simp add: s_def s3_def s2_def s1_def)
  define ra where "ra = takeSeat (createRoom (lit ''a'')) SymX ''p'' (lit ''Pat'')"
  define rb where "rb = takeSeat (createRoom (lit ''b'')) SymX ''q'' (lit ''Quin'')"
  have n: "sanitizeStr (jp_roomId pa) (lit ''lobby'') = lit ''a''"
    "sanitizeStr (jp_name pa) [] = lit ''Pat''" "lit ''Pat'' \<noteq> []" "normalizeMode (jp_mode pa) = Pvp"
    and m: "sanitizeStr (jp_roomId pb) (lit ''lobby'') = lit ''b''"
    "sanitizeStr (jp_name pb) [] = lit ''Quin''" "lit ''Quin'' \<noteq> []" "normalizeMode (jp_mode pb) = Pvp"
    by (simp_all add: pa_def pb_def sanitizeStr_def sanitize_def trim_def isSpace_def lit_def
        normalizeMode_def)
  have e1: "rooms s1 = Map.empty" "socks s1 = [''p'' \<mapsto> noData]"
    by (simp_all add: s1_def initial_def)
  have e2: "s2 = bindSocket (putRoom s1 (lit ''a'') ra) ''p'' (lit ''a'') SymX (lit ''Pat'')"
    unfolding s2_def ra_def handle.simps
    by (rule joinHandler_pvp_fresh [OF _ n]) (simp add: e1)
  have e3: "rooms s3 (lit ''a'') = Some ra" "rooms s3 (lit ''b'') = None" "socks s3 ''q'' = Some noData"
    "socks s3 ''p'' = Some \<lparr>sd_roomId = Some (lit ''a''), sd_symbol = Some SymX, sd_name = Some (lit ''Pat'')\<rparr>"
    by (simp_all add: s3_def e2 bindSocket_def putRoom_def e1)
  have e4: "s = bindSocket (putRoom s3 (lit ''b'') rb) ''q'' (lit ''b'') SymX (lit ''Quin'')"
    unfolding s4 rb_def handle.simps
    by (rule joinHandler_pvp_fresh [OF e3(2) m])
  have r1: "reachable s1"
    unfolding s1_def by (rule reachable.step [OF reachable.start]) (simp add: initial_def)
  have r2: "reachable s2"
    unfolding s2_def by (rule reachable.step [OF r1]) (simp add: e1)
  have r3: "reachable s3"
    unfolding s3_def by (rule reachable.step [OF r2]) (simp add: e2 bindSocket_def putRoom_def e1)
  show "reachable s"
    unfolding s4 by (rule reachable.step [OF r3]) (simp add: e3)
  show "rooms s (lit ''a'') = Some (takeSeat (createRoom (lit ''a'')) SymX ''p'' (lit ''Pat''))"
    by (simp add: e4 bindSocket_def putRoom_def e3 ra_def)
  show "rooms s (lit ''b'') = Some (takeSeat (createRoom (lit ''b'')) SymX ''q'' (lit ''Quin''))"
    by (simp add: e4 bindSocket_def putRoom_def rb_def)
  show "socketData s ''p'' = \<lparr>sd_roomId = Some (lit ''a''), sd_symbol = Some SymX, sd_name = Some (lit ''Pat'')\<rparr>"
    by (simp add: e4 bindSocket_def putRoom_def socketData_def e3)
qed

lemma fresh_seat_open:
  "turn (takeSeat (createRoom rid) sy sid name) = SymX"
  "winner (takeSeat (createRoom rid) sy sid name) = None"
  "\<not> isDraw (takeSeat (createRoom rid) sy sid name)"
  "mode (takeSeat (createRoom rid) sy sid name) = Pvp"
  "board (takeSeat (createRoom rid) sy sid name) = emptyBoard"
  "boardGet (takeSeat (createRoom rid) sy sid name) 0 = None"
proof -
  have ai: "isArrayIndex 0" "arrayIndex 0 = 0"
    using isArrayIndex_of_nat [of 0] arrayIndex_of_nat [of 0] by simp_all
  show "turn (takeSeat (createRoom rid) sy sid name) = SymX"
    "winner (takeSeat (createRoom rid) sy sid name) = None"
    "\<not> isDraw (takeSeat (createRoom rid) sy sid name)"
    "mode (takeSeat (createRoom rid) sy sid name) = Pvp"
    "board (takeSeat (createRoom rid) sy sid name) = emptyBoard"
    "boardGet (takeSeat (createRoom rid) sy sid name) 0 = None"
    by (simp_all add: takeSeat_fields createRoom_def boardGet_def ai cellAt_def emptyBoard_def)
qed

lemma first_move_at_0:
  assumes "board r = emptyBoard" and "turn r = SymX"
  shows "board (applyMove r SymX 0) = emptyBoard[0 := Some SymX]" and "turn (applyMove r SymX 0) = SymO"
proof -
  have gw: "getWinner (emptyBoard[0 := Some SymX]) = None" "\<not> everyFilled (emptyBoard[0 := Some SymX])"
    by code_simp+
  have "length (board r) = 9" by (simp add: assms emptyBoard_def)
  from applyMove_open [OF this, of 0 SymX] gw assms
  show "board (applyMove r SymX 0) = emptyBoard[0 := Some SymX]" and "turn (applyMove r SymX 0) = SymO"
    by (simp_all add: other_def)
qed

text \<open>
  C3, as the code has it. A move request from a connection whose binding names room
  \<open>bound\<close> is resolved by \<^verbatim>\<open>sanitize(payload.roomId, socket.data.roomId)\<close>: the room
  validated and mutated is the one named by the payload's \<open>roomId\<close>, trimmed, whenever
  that is a string with a character that is not white space, and the bound room only
  otherwise. Every other room of the registry, the bound one included when the payload
  names another, is left as it was. When the named room does not exist the request is
  rejected; when it exists, the checks are made on that room and the outcome is the
  one they give; and an accepted move lands in the named room. A request whose payload
  is \<^verbatim>\<open>null\<close> throws before any room is resolved.
\<close>

theorem move_resolves_payload_room_first:
  assumes "sd_roomId (socketData s sid) = Some bound"
    and "target = (case mp_roomId payload of
                     JString str \<Rightarrow> if trim str \<noteq> [] then trim str else bound
                   | _ \<Rightarrow> bound)"
  shows "(\<forall>k. k \<noteq> target \<longrightarrow> rooms (fst (moveHandler s sid payload rnd)) k = rooms s k)
    \<and> (rooms s target = None \<longrightarrow>
          moveHandler s sid payload rnd = (s, [PrivateError sid ''Join a room first.'']))
    \<and> (\<forall>r sy. rooms s target = Some r \<and> sd_symbol (socketData s sid) = Some sy \<longrightarrow>
          moveHandler s sid payload rnd =
            (if turn r \<noteq> sy then (s, [PrivateError sid ''Not your turn.''])
             else if winner r \<noteq> None \<or> isDraw r then (s, [PrivateError sid ''Game is finished.''])
             else if \<not> indexInRange (mp_index payload) then (s, [PrivateError sid ''Invalid move.''])
             else if boardGet r (indexValue (mp_index payload)) \<noteq> None
               then (s, [PrivateError sid ''Cell already taken.''])
             else (putRoom s target (fst (afterMove r sy (indexValue (mp_index payload)) target rnd)),
                   snd (afterMove r sy (indexValue (mp_index payload)) target rnd)
                     @ [Broadcast target
                          (getState (fst (afterMove r sy (indexValue (mp_index payload)) target rnd)))])))
    \<and> (\<forall>r sy. rooms s target = Some r \<and> sd_symbol (socketData s sid) = Some sy
          \<and> turn r = sy \<and> winner r = None \<and> \<not> isDraw r \<and> indexInRange (mp_index payload)
          \<and> boardGet r (indexValue (mp_index payload)) = None
        \<longrightarrow> rooms (fst (moveHandler s sid payload rnd)) target =
              Some (fst (afterMove r sy (indexValue (mp_index payload)) target rnd)))
    \<and> moveRequest s sid None rnd = None
    \<and> moveRequest s sid (Some payload) rnd = Some (moveHandler s sid payload rnd)"
proof -
  have t: "sanitize (mp_roomId payload) (sd_roomId (socketData s sid)) = Some target"
    using assms by (simp add: sanitize_def Let_def split: jsval.splits)
  have a: "\<forall>k. k \<noteq> target \<longrightarrow> rooms (fst (moveHandler s sid payload rnd)) k = rooms s k"
    using moveHandler_frame(2) [of _ payload s sid rnd] by (simp add: t)
  have b: "rooms s target = None \<longrightarrow>
          moveHandler s sid payload rnd = (s, [PrivateError sid ''Join a room first.''])"
    by (simp add: moveHandler_unresolved t roomsGet_def)
  have c: "\<forall>r sy. rooms s target = Some r \<and> sd_symbol (socketData s sid) = Some sy \<longrightarrow>
          moveHandler s sid payload rnd =
            (if turn r \<noteq> sy then (s, [PrivateError sid ''Not your turn.''])
             else if winner r \<noteq> None \<or> isDraw r then (s, [PrivateError sid ''Game is finished.''])
             else if \<not> indexInRange (mp_index payload) then (s, [PrivateError sid ''Invalid move.''])
             else if boardGet r (indexValue (mp_index payload)) \<noteq> None
               then (s, [PrivateError sid ''Cell already taken.''])
             else (putRoom s target (fst (afterMove r sy (indexValue (mp_index payload)) target rnd)),
                   snd (afterMove r sy (indexValue (mp_index payload)) target rnd)
                     @ [Broadcast target
                          (getState (fst (afterMove r sy (indexValue (mp_index payload)) target rnd)))]))"
  proof (intro allI impI)
    fix r sy
    assume "rooms s target = Some r \<and> sd_symbol (socketData s sid) = Some sy"
    then have h: "rooms s target = Some r" "sd_symbol (socketData s sid) = Some sy" by simp_all
    show "moveHandler s sid payload rnd =
            (if turn r \<noteq> sy then (s, [PrivateError sid ''Not your turn.''])
             else if winner r \<noteq> None \<or> isDraw r then (s, [PrivateError sid ''Game is finished.''])
             else if \<not> indexInRange (mp_index payload) then (s, [PrivateError sid ''Invalid move.''])
             else if boardGet r (indexValue (mp_index payload)) \<noteq> None
               then (s, [PrivateError sid ''Cell already taken.''])
             else (putRoom s target (fst (afterMove r sy (indexValue (mp_index payload)) target rnd)),
                   snd (afterMove r sy (indexValue (mp_index payload)) target rnd)
                     @ [Broadcast target
                          (getState (fst (afterMove r sy (indexValue (mp_index payload)) target rnd)))]))"
      by (rule moveHandler_resolved [OF t h])
  qed
  have d: "\<forall>r sy. rooms s target = Some r \<and> sd_symbol (socketData s sid) = Some sy
          \<and> turn r = sy \<and> winner r = None \<and> \<not> isDraw r \<and> indexInRange (mp_index payload)
          \<and> boardGet r (indexValue (mp_index payload)) = None
        \<longrightarrow> rooms (fst (moveHandler s sid payload rnd)) target =
              Some (fst (afterMove r sy (indexValue (mp_index payload)) target rnd))"
  proof (intro allI impI)
    fix r sy
    assume h: "rooms s target = Some r \<and> sd_symbol (socketData s sid) = Some sy
          \<and> turn r = sy \<and> winner r = None \<and> \<not> isDraw r \<and> indexInRange (mp_index payload)
          \<and> boardGet r (indexValue (mp_index payload)) = None"
    then have h12: "rooms s target = Some r" "sd_symbol (socketData s sid) = Some sy" by simp_all
    from h show "rooms (fst (moveHandler s sid payload rnd)) target =
              Some (fst (afterMove r sy (indexValue (mp_index payload)) target rnd))"
      by (simp add: moveHandler_resolved [OF t h12] putRoom_def)
  qed
  have e: "moveRequest s sid None rnd = None"
    "moveRequest s sid (Some payload) rnd = Some (moveHandler s sid payload rnd)"
    by (simp_all add: moveRequest_def)
  show ?thesis
    by (rule conjI [OF a conjI [OF b conjI [OF c conjI [OF d conjI [OF e]]]]])
qed

text \<open>
  The claim as stated fails. Pat joins room a and Quin joins room b, each as X of a
  fresh PvP room. Pat, whose binding names room a, then sends a move for cell 0 with
  \<^verbatim>\<open>roomId: 'b'\<close> in the payload: the move is validated against room b and written
  into room b, and room a stays as it was.
\<close>

theorem move_payload_room_counterexample:
  "(let pa = \<lparr>jp_roomId = JString (lit ''a''), jp_name = JString (lit ''Pat''),
               jp_mode = JOther, jp_difficulty = JOther, jp_symbol = JOther\<rparr>;
        pb = \<lparr>jp_roomId = JString (lit ''b''), jp_name = JString (lit ''Quin''),
               jp_mode = JOther, jp_difficulty = JOther, jp_symbol = JOther\<rparr>;
        s = handle (handle (handle (handle initial (Connect ''p'')) (Join ''p'' pa False 0))
              (Connect ''q'')) (Join ''q'' pb False 0);
        s' = handle s (Move ''p'' \<lparr>mp_roomId = JString (lit ''b''), mp_index = JNumber 0\<rparr> 0)
    in reachable s \<and> sd_roomId (socketData s ''p'') = Some (lit ''a'')
       \<and> rooms s' (lit ''a'') = rooms s (lit ''a'')
       \<and> board (the (rooms s (lit ''b''))) = emptyBoard
       \<and> board (the (rooms s' (lit ''b''))) = emptyBoard[0 := Some SymX]
       \<and> turn (the (rooms s (lit ''b''))) = SymX \<and> turn (the (rooms s' (lit ''b''))) = SymO)"
proof -
  define pa where "pa = \<lparr>jp_roomId = JString (lit ''a''), jp_name = JString (lit ''Pat''),
               jp_mode = JOther, jp_difficulty = JOther, jp_symbol = JOther\<rparr>"
  define pb where "pb = \<lparr>jp_roomId = JString (lit ''b''), jp_name = JString (lit ''Quin''),
               jp_mode = JOther, jp_difficulty = JOther, jp_symbol = JOther\<rparr>"
  define s where "s = handle (handle (handle (handle initial (Connect ''p'')) (Join ''p'' pa False 0))
              (Connect ''q'')) (Join ''q'' pb False 0)"
  define mv where "mv = \<lparr>mp_roomId = JString (lit ''b''), mp_index = JNumber 0\<rparr>"
  define s' where "s' = handle s (Move ''p'' mv 0)"
  define rb where "rb = takeSeat (createRoom (lit ''b'')) SymX ''q'' (lit ''Quin'')"
  note run = two_rooms_run [OF pa_def pb_def s_def]
  have kb: "rooms s (lit ''b'') = Some rb" by (simp add: run rb_def)
  have sy: "sd_symbol (socketData s ''p'') = Some SymX" "sd_roomId (socketData s ''p'') = Some (lit ''a'')"
    by (simp_all add: run)
  have t: "sanitize (mp_roomId mv) (sd_roomId (socketData s ''p'')) = Some (lit ''b'')"
    by (simp add: mv_def sanitize_def trim_def isSpace_def lit_def)
  have ix: "indexInRange (mp_index mv)" "indexValue (mp_index mv) = 0"
    by (simp_all add: mv_def indexInRange_def indexValue_def)
  have e: "s' = putRoom s (lit ''b'') (applyMove rb SymX 0)"
    unfolding s'_def handle.simps using ix
    by (simp add: moveHandler_resolved [OF t kb sy(1)] afterMove_def applyMove_fields
        fresh_seat_open rb_def)
  have "reachable s \<and> sd_roomId (socketData s ''p'') = Some (lit ''a'')
       \<and> rooms s' (lit ''a'') = rooms s (lit ''a'')
       \<and> board (the (rooms s (lit ''b''))) = emptyBoard
       \<and> board (the (rooms s' (lit ''b''))) = emptyBoard[0 := Some SymX]
       \<and> turn (the (rooms s (lit ''b''))) = SymX \<and> turn (the (rooms s' (lit ''b''))) = SymO"
    using run(1) sy kb
    by (simp add: e putRoom_def rb_def fresh_seat_open first_move_at_0)
  then show ?thesis
    unfolding s'_def s_def pa_def pb_def mv_def Let_def .
qed

theorem move_resolves_payload_room_first_witness:
  "(let pa = \<lparr>jp_roomId = JString (lit ''a''), jp_name = JString (lit ''Pat''),
               jp_mode = JOther, jp_difficulty = JOther, jp_symbol = JOther\<rparr>;
        pb = \<lparr>jp_roomId = JString (lit ''b''), jp_name = JString (lit ''Quin''),
               jp_mode = JOther, jp_difficulty = JOther, jp_symbol = JOther\<rparr>;
        s = handle (handle (handle (handle initial (Connect ''p'')) (Join ''p'' pa False 0))
              (Connect ''q'')) (Join ''q'' pb False 0);
        named = \<lparr>mp_roomId = JString (0xA0 # lit ''b '' @ [0x2028]), mp_index = JNumber 0\<rparr>;
        blank = \<lparr>mp_roomId = JString [0xA0, 0x20, 0xFEFF], mp_index = JNumber 0\<rparr>
    in reachable s \<and> sd_roomId (socketData s ''p'') = Some (lit ''a'')
       \<and> trim (0xA0 # lit ''b '' @ [0x2028]) = lit ''b'' \<and> trim [0xA0, 0x20, 0xFEFF] = []
       \<and> rooms (fst (moveHandler s ''p'' named 0)) (lit ''a'') = rooms s (lit ''a'')
       \<and> board (the (rooms (fst (moveHandler s ''p'' named 0)) (lit ''b''))) = emptyBoard[0 := Some SymX]
       \<and> rooms (fst (moveHandler s ''p'' blank 0)) (lit ''b'') = rooms s (lit ''b'')
       \<and> board (the (rooms (fst (moveHandler s ''p'' blank 0)) (lit ''a''))) = emptyBoard[0 := Some SymX])"
proof -
  define pa where "pa = \<lparr>jp_roomId = JString (lit ''a''), jp_name = JString (lit ''Pat''),
               jp_mode = JOther, jp_difficulty = JOther, jp_symbol = JOther\<rparr>"
  define pb where "pb = \<lparr>jp_roomId = JString (lit ''b''), jp_name = JString (lit ''Quin''),
               jp_mode = JOther, jp_difficulty = JOther, jp_symbol = JOther\<rparr>"
  define s where "s = handle (handle (handle (handle initial (Connect ''p'')) (Join ''p'' pa False 0))
              (Connect ''q'')) (Join ''q'' pb False 0)"
  define named where "named = \<lparr>mp_roomId = JString (0xA0 # lit ''b '' @ [0x2028]), mp_index = JNumber 0\<rparr>"
  define blank where "blank = \<lparr>mp_roomId = JString [0xA0, 0x20, 0xFEFF], mp_index = JNumber 0\<rparr>"
  define ra where "ra = takeSeat (createRoom (lit ''a'')) SymX ''p'' (lit ''Pat'')"
  define rb where "rb = takeSeat (createRoom (lit ''b'')) SymX ''q'' (lit ''Quin'')"
  note run = two_rooms_run [OF pa_def pb_def s_def]
  have k: "rooms s (lit ''a'') = Some ra" "rooms s (lit ''b'') = Some rb"
    by (simp_all add: run ra_def rb_def)
  have sy: "sd_symbol (socketData s ''p'') = Some SymX" and bd: "sd_roomId (socketData s ''p'') = Some (lit ''a'')"
    by (simp_all add: run)
  have tr: "trim (0xA0 # lit ''b '' @ [0x2028]) = lit ''b''" "trim [0xA0, 0x20, 0xFEFF] = []"
    by (simp_all add: trim_def isSpace_def lit_def)
  have tn: "lit ''b'' = (case mp_roomId named of
                     JString str \<Rightarrow> if trim str \<noteq> [] then trim str else lit ''a''
                   | _ \<Rightarrow> lit ''a'')"
    and tb: "lit ''a'' = (case mp_roomId blank of
                     JString str \<Rightarrow> if trim str \<noteq> [] then trim str else lit ''a''
                   | _ \<Rightarrow> lit ''a'')"
    by (simp_all add: named_def blank_def tr)
  have ix: "indexInRange (mp_index named)" "indexValue (mp_index named) = 0"
    "indexInRange (mp_index blank)" "indexValue (mp_index blank) = 0"
    by (simp_all add: named_def blank_def indexInRange_def indexValue_def)
  have am: "fst (afterMove ra SymX 0 rid 0) = applyMove ra SymX 0"
    "fst (afterMove rb SymX 0 rid 0) = applyMove rb SymX 0" for rid
    by (simp_all add: afterMove_def applyMove_fields ra_def rb_def fresh_seat_open)
  from move_resolves_payload_room_first [OF bd tn, of 0] k sy ix
  have cn: "rooms (fst (moveHandler s ''p'' named 0)) (lit ''a'') = rooms s (lit ''a'')"
    "rooms (fst (moveHandler s ''p'' named 0)) (lit ''b'') = Some (applyMove rb SymX 0)"
    by (simp_all add: rb_def fresh_seat_open am [unfolded rb_def])
  from move_resolves_payload_room_first [OF bd tb, of 0] k sy ix
  have cb: "rooms (fst (moveHandler s ''p'' blank 0)) (lit ''b'') = rooms s (lit ''b'')"
    "rooms (fst (moveHandler s ''p'' blank 0)) (lit ''a'') = Some (applyMove ra SymX 0)"
    by (simp_all add: ra_def fresh_seat_open am [unfolded ra_def])
  have "reachable s \<and> sd_roomId (socketData s ''p'') = Some (lit ''a'')
       \<and> trim (0xA0 # lit ''b '' @ [0x2028]) = lit ''b'' \<and> trim [0xA0, 0x20, 0xFEFF] = []
       \<and> rooms (fst (moveHandler s ''p'' named 0)) (lit ''a'') = rooms s (lit ''a'')
       \<and> board (the (rooms (fst (moveHandler s ''p'' named 0)) (lit ''b''))) = emptyBoard[0 := Some SymX]
       \<and> rooms (fst (moveHandler s ''p'' blank 0)) (lit ''b'') = rooms s (lit ''b'')
       \<and> board (the (rooms (fst (moveHandler s ''p'' blank 0)) (lit ''a''))) = emptyBoard[0 := Some SymX]"
    using run(1) bd tr cn cb
    by (simp add: first_move_at_0 ra_def rb_def fresh_seat_open)
  then show ?thesis
    unfolding s_def pa_def pb_def named_def blank_def Let_def .
qed

section \<open>Joining a bot match (C4)\<close>

lemma opening_mark:
  assumes "i < 9"
  shows "getWinner (emptyBoard[i := Some SymX]) = None" and "\<not> everyFilled (emptyBoard[i := Some SymX])"
proof -
  have "list_all (\<lambda>i. getWinner (emptyBoard[i := Some SymX]) = None
      \<and> \<not> everyFilled (emptyBoard[i := Some SymX])) [0..<9]"
    by code_simp
  with assms show "getWinner (emptyBoard[i := Some SymX]) = None"
    and "\<not> everyFilled (emptyBoard[i := Some SymX])"
    by (simp_all add: list_all_iff)
qed

lemma emptyBoard_facts:
  "length emptyBoard = 9" "getWinner emptyBoard = None" "\<not> everyFilled emptyBoard"
  by (simp add: emptyBoard_def) code_simp+

text \<open>The opening move of the bot in a freshly reset room where it plays X.\<close>

lemma maybeBotMove_opening:
  assumes "board r = emptyBoard" and "turn r = SymX" and "winner r = None" and "\<not> isDraw r"
    and "mode r = BotMode" and "botSymbol r = Some SymX"
  shows "\<exists>i<9. getBotMove r rnd = Some i
      \<and> maybeBotMove r rid rnd = (applyMove r SymX (of_nat i),
            [Broadcast rid (getState (applyMove r SymX (of_nat i)))], True)
      \<and> board (applyMove r SymX (of_nat i)) = emptyBoard[i := Some SymX]
      \<and> turn (applyMove r SymX (of_nat i)) = SymO
      \<and> winner (applyMove r SymX (of_nat i)) = None \<and> \<not> isDraw (applyMove r SymX (of_nat i))"
proof -
  have "botSymbol r = Some (turn r)" by (simp add: assms)
  from getBotMove_some [of r rnd, OF _ _ this] obtain i
    where i: "getBotMove r rnd = Some i" "i \<in> set (getAvailableMoves (board r))"
    by (auto simp: assms emptyBoard_facts)
  then have i9: "i < 9" by (simp add: getAvailableMoves_iff assms emptyBoard_facts)
  have len: "length (board r) = 9" by (simp add: assms emptyBoard_facts)
  have "maybeBotMove r rid rnd = (applyMove r SymX (of_nat i),
            [Broadcast rid (getState (applyMove r SymX (of_nat i)))], True)"
    by (simp add: maybeBotMove_def assms i Let_def)
  moreover from applyMove_open [OF len i9, of SymX] opening_mark [OF i9]
  have "board (applyMove r SymX (of_nat i)) = emptyBoard[i := Some SymX]"
    "turn (applyMove r SymX (of_nat i)) = SymO"
    "winner (applyMove r SymX (of_nat i)) = None" "\<not> isDraw (applyMove r SymX (of_nat i))"
    by (simp_all add: assms other_def)
  ultimately show ?thesis using i(1) i9 by blast
qed

lemma joinHandler_blank_name:
  assumes "sanitizeStr (jp_name payload) [] = []"
  shows "joinHandler s sid payload ack rnd = (s, rejectJoin sid ack ''Name is required.'')"
  using assms by (simp add: joinHandler_def Let_def)

text \<open>
  C4, as the code has it. Take a join in BotMatch mode addressed to a room \<open>r\<close> already
  in BotMatch mode; \<open>name\<close> is the requester's name with the white space trimmed,
  \<open>pref\<close> the preferred symbol and \<open>diff\<close> the difficulty of the request. A blank name
  is rejected with "Name is required.". Otherwise the request is rejected with "Room
  is full." if and only if a human holds a seat of the room, whichever seat the
  requester prefers, and the rejection changes nothing. When no human holds a seat
  the join is accepted, and the handler builds the room \<open>seated\<close>: the room is reset
  (empty board, turn X, outcome undecided), it is reconfigured (bot mode, difficulty
  \<open>diff\<close>, the bot as the symbol opposite \<open>pref\<close> and seated there), and the requester
  is seated at exactly \<open>pref\<close>. The requester is bound to the room and to \<open>pref\<close>, the
  acknowledgement carries \<open>pref\<close>, the snapshot of \<open>seated\<close> is broadcast, and then the
  bot step runs on \<open>seated\<close>: nothing happens when the requester holds X, and when the
  requester holds O the bot opens with an X on one cell of the empty board. The room
  stored is the one after the bot step.
\<close>

theorem bot_join_full_iff_human_present:
  assumes "rooms s rid = Some r" and "mode r = BotMode"
    and "sanitizeStr (jp_roomId payload) (lit ''lobby'') = rid"
    and "sanitizeStr (jp_name payload) [] = name"
    and "normalizeMode (jp_mode payload) = BotMode"
    and "normalizeSymbol (jp_symbol payload) = pref"
    and "normalizeDifficulty (jp_difficulty payload) = diff"
    and "seated = takeSeat (ensureBot (resetRoom r) (other pref) diff) pref sid name"
  shows "(name = [] \<longrightarrow>
            joinHandler s sid payload ack rnd = (s, rejectJoin sid ack ''Name is required.''))
    \<and> (name \<noteq> [] \<and> hasHuman r \<longrightarrow>
            joinHandler s sid payload ack rnd = (s, rejectJoin sid ack ''Room is full.''))
    \<and> ((PrivateError sid ''Room is full.'' \<in> set (snd (joinHandler s sid payload ack rnd)))
          = (name \<noteq> [] \<and> hasHuman r))
    \<and> (name \<noteq> [] \<and> \<not> hasHuman r \<longrightarrow>
          joinHandler s sid payload ack rnd =
            (bindSocket (putRoom s rid (fst (maybeBotMove seated rid rnd))) sid rid pref name,
             (if ack then [AckJoined sid rid pref BotMode diff] else [])
               @ [Broadcast rid (getState seated)] @ fst (snd (maybeBotMove seated rid rnd)))
          \<and> (\<forall>msg. PrivateError sid msg \<notin> set (snd (joinHandler s sid payload ack rnd)))
          \<and> rooms (fst (joinHandler s sid payload ack rnd)) rid = Some (fst (maybeBotMove seated rid rnd))
          \<and> socketData (fst (joinHandler s sid payload ack rnd)) sid =
               \<lparr>sd_roomId = Some rid, sd_symbol = Some pref, sd_name = Some name\<rparr>)
    \<and> board seated = emptyBoard \<and> boardProps seated = Map.empty \<and> turn seated = SymX
    \<and> winner seated = None \<and> \<not> isDraw seated
    \<and> mode seated = BotMode \<and> difficulty seated = diff \<and> botSymbol seated = Some (other pref)
    \<and> players seated pref = Some \<lparr>player_id = sid, player_name = name, player_isBot = False\<rparr>
    \<and> players seated (other pref) =
          Some \<lparr>player_id = ''BOT'', player_name = lit (''Computer ('' @ difficultyName diff @ '')''),
                player_isBot = True\<rparr>
    \<and> sockets seated = (sockets r)(sid \<mapsto> pref) \<and> room_id seated = room_id r
    \<and> (pref = SymX \<longrightarrow> maybeBotMove seated rid rnd = (seated, [], False))
    \<and> (pref = SymO \<longrightarrow>
          (\<exists>i<9. getBotMove seated rnd = Some i
             \<and> maybeBotMove seated rid rnd = (applyMove seated SymX (of_nat i),
                   [Broadcast rid (getState (applyMove seated SymX (of_nat i)))], True)
             \<and> board (applyMove seated SymX (of_nat i)) = emptyBoard[i := Some SymX]
             \<and> turn (applyMove seated SymX (of_nat i)) = SymO
             \<and> winner (applyMove seated SymX (of_nat i)) = None
             \<and> \<not> isDraw (applyMove seated SymX (of_nat i))))"
proof -
  have op: "other pref \<noteq> pref" by simp
  have f: "board seated = emptyBoard" "boardProps seated = Map.empty" "turn seated = SymX"
    "winner seated = None" "\<not> isDraw seated"
    "mode seated = BotMode" "difficulty seated = diff" "botSymbol seated = Some (other pref)"
    "players seated pref = Some \<lparr>player_id = sid, player_name = name, player_isBot = False\<rparr>"
    "players seated (other pref) =
          Some \<lparr>player_id = ''BOT'', player_name = lit (''Computer ('' @ difficultyName diff @ '')''),
                player_isBot = True\<rparr>"
    "sockets seated = (sockets r)(sid \<mapsto> pref)" "room_id seated = room_id r"
    using op by (simp_all add: assms(8) takeSeat_def ensureBot_def resetRoom_def)
  have a: "name = [] \<longrightarrow>
            joinHandler s sid payload ack rnd = (s, rejectJoin sid ack ''Name is required.'')"
    using assms(4) by (simp add: joinHandler_blank_name)
  have b: "name \<noteq> [] \<and> hasHuman r \<longrightarrow>
            joinHandler s sid payload ack rnd = (s, rejectJoin sid ack ''Room is full.'')"
    using assms(4) by (auto intro!: joinHandler_bot_full [OF assms(1,2) _ assms(3) _ assms(5)])
  have j: "joinHandler s sid payload ack rnd =
            (bindSocket (putRoom s rid (fst (maybeBotMove seated rid rnd))) sid rid pref name,
             (if ack then [AckJoined sid rid pref BotMode diff] else [])
               @ [Broadcast rid (getState seated)] @ fst (snd (maybeBotMove seated rid rnd)))"
    if "name \<noteq> []" "\<not> hasHuman r"
    using joinHandler_bot_fresh [OF assms(1) that(2) assms(3,4) that(1) assms(5,6),
        of seated sid ack rnd] assms(7,8) f(7)
    by simp
  have d: "name \<noteq> [] \<and> \<not> hasHuman r \<longrightarrow>
          joinHandler s sid payload ack rnd =
            (bindSocket (putRoom s rid (fst (maybeBotMove seated rid rnd))) sid rid pref name,
             (if ack then [AckJoined sid rid pref BotMode diff] else [])
               @ [Broadcast rid (getState seated)] @ fst (snd (maybeBotMove seated rid rnd)))
          \<and> (\<forall>msg. PrivateError sid msg \<notin> set (snd (joinHandler s sid payload ack rnd)))
          \<and> rooms (fst (joinHandler s sid payload ack rnd)) rid = Some (fst (maybeBotMove seated rid rnd))
          \<and> socketData (fst (joinHandler s sid payload ack rnd)) sid =
               \<lparr>sd_roomId = Some rid, sd_symbol = Some pref, sd_name = Some name\<rparr>"
  proof
    assume h: "name \<noteq> [] \<and> \<not> hasHuman r"
    then have jj: "joinHandler s sid payload ack rnd =
            (bindSocket (putRoom s rid (fst (maybeBotMove seated rid rnd))) sid rid pref name,
             (if ack then [AckJoined sid rid pref BotMode diff] else [])
               @ [Broadcast rid (getState seated)] @ fst (snd (maybeBotMove seated rid rnd)))"
      by (intro j) simp_all
    show "joinHandler s sid payload ack rnd =
            (bindSocket (putRoom s rid (fst (maybeBotMove seated rid rnd))) sid rid pref name,
             (if ack then [AckJoined sid rid pref BotMode diff] else [])
               @ [Broadcast rid (getState seated)] @ fst (snd (maybeBotMove seated rid rnd)))
          \<and> (\<forall>msg. PrivateError sid msg \<notin> set (snd (joinHandler s sid payload ack rnd)))
          \<and> rooms (fst (joinHandler s sid payload ack rnd)) rid = Some (fst (maybeBotMove seated rid rnd))
          \<and> socketData (fst (joinHandler s sid payload ack rnd)) sid =
               \<lparr>sd_roomId = Some rid, sd_symbol = Some pref, sd_name = Some name\<rparr>"
      by (simp add: jj maybeBotMove_events bindSocket_def putRoom_def socketData_def)
  qed
  have c: "(PrivateError sid ''Room is full.'' \<in> set (snd (joinHandler s sid payload ack rnd)))
          = (name \<noteq> [] \<and> hasHuman r)"
  proof (cases "name = []")
    case True
    with a show ?thesis by (simp add: rejectJoin_def)
  next
    case False
    show ?thesis
    proof (cases "hasHuman r")
      case True
      with False b show ?thesis by (simp add: rejectJoin_def)
    next
      case nh: False
      with False d have "\<forall>msg. PrivateError sid msg \<notin> set (snd (joinHandler s sid payload ack rnd))"
        by blast
      with nh show ?thesis by simp
    qed
  qed
  have x: "pref = SymX \<longrightarrow> maybeBotMove seated rid rnd = (seated, [], False)"
    by (simp add: maybeBotMove_def f other_def)
  have o: "pref = SymO \<longrightarrow>
          (\<exists>i<9. getBotMove seated rnd = Some i
             \<and> maybeBotMove seated rid rnd = (applyMove seated SymX (of_nat i),
                   [Broadcast rid (getState (applyMove seated SymX (of_nat i)))], True)
             \<and> board (applyMove seated SymX (of_nat i)) = emptyBoard[i := Some SymX]
             \<and> turn (applyMove seated SymX (of_nat i)) = SymO
             \<and> winner (applyMove seated SymX (of_nat i)) = None
             \<and> \<not> isDraw (applyMove seated SymX (of_nat i)))"
  proof
    assume "pref = SymO"
    then have "botSymbol seated = Some SymX" by (simp add: f other_def)
    from maybeBotMove_opening [OF f(1,3,4,5,6) this]
    show "\<exists>i<9. getBotMove seated rnd = Some i
             \<and> maybeBotMove seated rid rnd = (applyMove seated SymX (of_nat i),
                   [Broadcast rid (getState (applyMove seated SymX (of_nat i)))], True)
             \<and> board (applyMove seated SymX (of_nat i)) = emptyBoard[i := Some SymX]
             \<and> turn (applyMove seated SymX (of_nat i)) = SymO
             \<and> winner (applyMove seated SymX (of_nat i)) = None
             \<and> \<not> isDraw (applyMove seated SymX (of_nat i))" .
  qed
  show ?thesis
    by (intro conjI a b c d f x o)
qed


lemma joinHandler_bot_new:
  assumes "rooms s rid = None"
    and "sanitizeStr (jp_roomId payload) (lit ''lobby'') = rid"
    and "sanitizeStr (jp_name payload) [] = name" and "name \<noteq> []"
    and "normalizeMode (jp_mode payload) = BotMode"
    and "normalizeSymbol (jp_symbol payload) = pref"
    and "room2 = takeSeat (ensureBot (resetRoom (createRoom rid)) (other pref)
                    (normalizeDifficulty (jp_difficulty payload))) pref sid name"
  shows "fst (joinHandler s sid payload ack rnd) =
     bindSocket (putRoom s rid (fst (maybeBotMove room2 rid rnd))) sid rid pref name"
proof -
  have "\<not> hasHuman (createRoom rid)"
    by (simp add: hasHuman_def createRoom_def)
  then show ?thesis
    using assms
    by (cases pref)
      (simp_all add: joinHandler_def getRoom_def Let_def other_def putRoom_def bindSocket_def
        split: prod.splits)
qed

text \<open>
  The run used below. Ann connects and joins room r against the computer as X, so
  the bot holds seat O; Bob connects; then Ann disconnects, which leaves the room
  without a human.
\<close>

lemma bot_room_run:
  assumes pa_def: "pa = \<lparr>jp_roomId = JString (lit ''r''), jp_name = JString (lit ''Ann''),
                  jp_mode = JString (lit ''bot''), jp_difficulty = JOther, jp_symbol = JString (lit ''X'')\<rparr>"
    and s3_def: "s3 = handle (handle (handle initial (Connect ''a'')) (Join ''a'' pa False 0)) (Connect ''b'')"
    and s4_def: "s4 = handle s3 (Disconnect ''a'')"
    and r3_def: "r3 = takeSeat (ensureBot (resetRoom (createRoom (lit ''r''))) SymO Easy) SymX ''a'' (lit ''Ann'')"
  shows "reachable s3" and "reachable s4"
    and "rooms s3 (lit ''r'') = Some r3"
    and "rooms s4 (lit ''r'') = Some (resetRoom (vacateSeat r3 ''a''))"
    and "mode r3 = BotMode" and "hasHuman r3" and "isBot (players r3 SymO)"
    and "mode (resetRoom (vacateSeat r3 ''a'')) = BotMode"
    and "\<not> hasHuman (resetRoom (vacateSeat r3 ''a''))"
proof -
  define s1 where "s1 = handle initial (Connect ''a'')"
  define s2 where "s2 = handle s1 (Join ''a'' pa False 0)"
  have s3: "s3 = handle s2 (Connect ''b'')" by (simp add: s3_def s2_def s1_def)
  have n: "sanitizeStr (jp_roomId pa) (lit ''lobby'') = lit ''r''"
    "sanitizeStr (jp_name pa) [] = lit ''Ann''" "lit ''Ann'' \<noteq> []"
    "normalizeMode (jp_mode pa) = BotMode" "normalizeSymbol (jp_symbol pa) = SymX"
    and nd: "normalizeDifficulty (jp_difficulty pa) = Easy"
    by (simp_all add: pa_def sanitizeStr_def sanitize_def trim_def isSpace_def lit_def
        normalizeMode_def normalizeSymbol_def normalizeDifficulty_def)
  have e1: "rooms s1 = Map.empty" "socks s1 = [''a'' \<mapsto> noData]"
    by (simp_all add: s1_def initial_def)
  have nb: "maybeBotMove r3 (lit ''r'') 0 = (r3, [], False)"
    by (simp add: maybeBotMove_def r3_def takeSeat_fields ensureBot_def resetRoom_def)
  have e2: "s2 = bindSocket (putRoom s1 (lit ''r'') r3) ''a'' (lit ''r'') SymX (lit ''Ann'')"
    using joinHandler_bot_new [OF _ n, of s1 r3 "''a''" False 0] nb
    by (simp add: s2_def e1 r3_def nd other_def)
  have k3: "rooms s3 (lit ''r'') = Some r3" "socks s3 ''a'' \<noteq> None"
    "sd_roomId (socketData s3 ''a'') = Some (lit ''r'')"
    by (simp_all add: s3 e2 bindSocket_def putRoom_def socketData_def)
  have r1: "reachable s1"
    unfolding s1_def by (rule reachable.step [OF reachable.start]) (simp add: initial_def)
  have r2: "reachable s2"
    unfolding s2_def by (rule reachable.step [OF r1]) (simp add: e1)
  show r3: "reachable s3"
    unfolding s3 by (rule reachable.step [OF r2]) (simp add: e2 bindSocket_def putRoom_def e1)
  show "reachable s4"
    unfolding s4_def by (rule reachable.step [OF r3]) (simp add: k3)
  show "rooms s3 (lit ''r'') = Some r3" by (rule k3)
  have v: "\<not> hasHuman (vacateSeat r3 ''a'')"
    by (simp add: vacateSeat_def r3_def takeSeat_def ensureBot_def resetRoom_def hasHuman_def isBot_def)
  from disconnectHandler_room [OF k3(3,1)] v
  show "rooms s4 (lit ''r'') = Some (resetRoom (vacateSeat r3 ''a''))"
    by (simp add: s4_def)
  show "mode r3 = BotMode" "hasHuman r3" "isBot (players r3 SymO)"
    by (simp_all add: r3_def takeSeat_def ensureBot_def isBot_def hasHuman_def)
  show "mode (resetRoom (vacateSeat r3 ''a'')) = BotMode"
    by (simp add: vacateSeat_def r3_def takeSeat_def ensureBot_def resetRoom_def isBot_def)
  from v show "\<not> hasHuman (resetRoom (vacateSeat r3 ''a''))"
    by (simp add: hasHuman_def resetRoom_def)
qed

text \<open>
  The claim as stated fails: with Ann at X and the bot at O, Bob asks to join the
  same room in BotMatch mode preferring O. Seat O is not held by a human, yet Bob is
  rejected with "Room is full.".
\<close>

theorem bot_join_preferred_seat_counterexample:
  "(let pa = \<lparr>jp_roomId = JString (lit ''r''), jp_name = JString (lit ''Ann''),
               jp_mode = JString (lit ''bot''), jp_difficulty = JOther, jp_symbol = JString (lit ''X'')\<rparr>;
        pb = \<lparr>jp_roomId = JString (lit ''r''), jp_name = JString (lit ''Bob''),
               jp_mode = JString (lit ''bot''), jp_difficulty = JOther, jp_symbol = JString (lit ''O'')\<rparr>;
        s3 = handle (handle (handle initial (Connect ''a'')) (Join ''a'' pa False 0)) (Connect ''b'')
    in reachable s3 \<and> mode (the (rooms s3 (lit ''r''))) = BotMode
       \<and> normalizeSymbol (jp_symbol pb) = SymO
       \<and> isBot (players (the (rooms s3 (lit ''r''))) SymO)
       \<and> joinHandler s3 ''b'' pb False 0 = (s3, [PrivateError ''b'' ''Room is full.'']))"
proof -
  define pa where "pa = \<lparr>jp_roomId = JString (lit ''r''), jp_name = JString (lit ''Ann''),
               jp_mode = JString (lit ''bot''), jp_difficulty = JOther, jp_symbol = JString (lit ''X'')\<rparr>"
  define pb where "pb = \<lparr>jp_roomId = JString (lit ''r''), jp_name = JString (lit ''Bob''),
               jp_mode = JString (lit ''bot''), jp_difficulty = JOther, jp_symbol = JString (lit ''O'')\<rparr>"
  define s3 where "s3 = handle (handle (handle initial (Connect ''a'')) (Join ''a'' pa False 0)) (Connect ''b'')"
  define s4 where "s4 = handle s3 (Disconnect ''a'')"
  define r3 where "r3 = takeSeat (ensureBot (resetRoom (createRoom (lit ''r''))) SymO Easy) SymX ''a'' (lit ''Ann'')"
  note run = bot_room_run [OF pa_def s3_def s4_def r3_def]
  have pb_n: "sanitizeStr (jp_roomId pb) (lit ''lobby'') = lit ''r''" "sanitizeStr (jp_name pb) [] \<noteq> []"
    "normalizeMode (jp_mode pb) = BotMode" "normalizeSymbol (jp_symbol pb) = SymO"
    by (simp_all add: pb_def sanitizeStr_def sanitize_def trim_def isSpace_def lit_def
        normalizeMode_def normalizeSymbol_def)
  have "joinHandler s3 ''b'' pb False 0 = (s3, rejectJoin ''b'' False ''Room is full.'')"
    by (rule joinHandler_bot_full [OF run(3,5,6) pb_n(1,2,3)])
  with run pb_n have "reachable s3 \<and> mode (the (rooms s3 (lit ''r''))) = BotMode
       \<and> normalizeSymbol (jp_symbol pb) = SymO
       \<and> isBot (players (the (rooms s3 (lit ''r''))) SymO)
       \<and> joinHandler s3 ''b'' pb False 0 = (s3, [PrivateError ''b'' ''Room is full.''])"
    by (simp add: rejectJoin_def)
  then show ?thesis
    unfolding s3_def pa_def pb_def Let_def .
qed

theorem bot_join_full_iff_human_present_witness:
  "(let pa = \<lparr>jp_roomId = JString (lit ''r''), jp_name = JString (lit ''Ann''),
               jp_mode = JString (lit ''bot''), jp_difficulty = JOther, jp_symbol = JString (lit ''X'')\<rparr>;
        pb = \<lparr>jp_roomId = JString (lit ''r''), jp_name = JString (lit ''Bob''),
               jp_mode = JString (lit ''bot''), jp_difficulty = JOther, jp_symbol = JString (lit ''O'')\<rparr>;
        pn = \<lparr>jp_roomId = JString (lit ''r''), jp_name = JString [0xA0, 0x20],
               jp_mode = JString (lit ''bot''), jp_difficulty = JOther, jp_symbol = JString (lit ''O'')\<rparr>;
        s3 = handle (handle (handle initial (Connect ''a'')) (Join ''a'' pa False 0)) (Connect ''b'');
        s4 = handle s3 (Disconnect ''a'');
        s5 = fst (joinHandler s4 ''b'' pb True 0)
    in reachable s3 \<and> reachable s4
       \<and> joinHandler s3 ''b'' pb True 0 = (s3, rejectJoin ''b'' True ''Room is full.'')
       \<and> joinHandler s4 ''b'' pn True 0 = (s4, rejectJoin ''b'' True ''Name is required.'')
       \<and> sd_symbol (socketData s5 ''b'') = Some SymO
       \<and> board (the (rooms s5 (lit ''r''))) = emptyBoard[0 := Some SymX]
       \<and> turn (the (rooms s5 (lit ''r''))) = SymO
       \<and> mode (the (rooms s5 (lit ''r''))) = BotMode
       \<and> botSymbol (the (rooms s5 (lit ''r''))) = Some SymX
       \<and> isBot (players (the (rooms s5 (lit ''r''))) SymX)
       \<and> players (the (rooms s5 (lit ''r''))) SymO =
            Some \<lparr>player_id = ''b'', player_name = lit ''Bob'', player_isBot = False\<rparr>)"
proof -
  define pa where "pa = \<lparr>jp_roomId = JString (lit ''r''), jp_name = JString (lit ''Ann''),
               jp_mode = JString (lit ''bot''), jp_difficulty = JOther, jp_symbol = JString (lit ''X'')\<rparr>"
  define pb where "pb = \<lparr>jp_roomId = JString (lit ''r''), jp_name = JString (lit ''Bob''),
               jp_mode = JString (lit ''bot''), jp_difficulty = JOther, jp_symbol = JString (lit ''O'')\<rparr>"
  define pn where "pn = \<lparr>jp_roomId = JString (lit ''r''), jp_name = JString [0xA0, 0x20],
               jp_mode = JString (lit ''bot''), jp_difficulty = JOther, jp_symbol = JString (lit ''O'')\<rparr>"
  define s3 where "s3 = handle (handle (handle initial (Connect ''a'')) (Join ''a'' pa False 0)) (Connect ''b'')"
  define s4 where "s4 = handle s3 (Disconnect ''a'')"
  define s5 where "s5 = fst (joinHandler s4 ''b'' pb True 0)"
  define r3 where "r3 = takeSeat (ensureBot (resetRoom (createRoom (lit ''r''))) SymO Easy) SymX ''a'' (lit ''Ann'')"
  define r4 where "r4 = resetRoom (vacateSeat r3 ''a'')"
  define seated where "seated = takeSeat (ensureBot (resetRoom r4) (other SymO) Easy) SymO ''b'' (lit ''Bob'')"
  define seatedn where "seatedn = takeSeat (ensureBot (resetRoom r4) (other SymO) Easy) SymO ''b'' ([] :: jstring)"
  note run = bot_room_run [OF pa_def s3_def s4_def r3_def, folded r4_def]
  have pb_n: "sanitizeStr (jp_roomId pb) (lit ''lobby'') = lit ''r''"
    "sanitizeStr (jp_name pb) [] = lit ''Bob''"
    "normalizeMode (jp_mode pb) = BotMode" "normalizeSymbol (jp_symbol pb) = SymO"
    "normalizeDifficulty (jp_difficulty pb) = Easy"
    and pn_n: "sanitizeStr (jp_roomId pn) (lit ''lobby'') = lit ''r''"
    "sanitizeStr (jp_name pn) [] = []"
    "normalizeMode (jp_mode pn) = BotMode" "normalizeSymbol (jp_symbol pn) = SymO"
    "normalizeDifficulty (jp_difficulty pn) = Easy"
    by (simp_all add: pb_def pn_def sanitizeStr_def sanitize_def trim_def isSpace_def lit_def
        normalizeMode_def normalizeSymbol_def normalizeDifficulty_def)
  have seated3: "takeSeat (ensureBot (resetRoom r3) (other SymO) Easy) SymO ''b'' (lit ''Bob'')
      = takeSeat (ensureBot (resetRoom r3) (other SymO) Easy) SymO ''b'' (lit ''Bob'')" ..
  from bot_join_full_iff_human_present [OF run(3,5) pb_n seated3, of True 0] run(6)
  have c3: "joinHandler s3 ''b'' pb True 0 = (s3, rejectJoin ''b'' True ''Room is full.'')"
    by simp
  from bot_join_full_iff_human_present [OF run(4,8) pn_n seatedn_def, of True 0]
  have cn: "joinHandler s4 ''b'' pn True 0 = (s4, rejectJoin ''b'' True ''Name is required.'')"
    by simp
  note acc = bot_join_full_iff_human_present [OF run(4,8) pb_n seated_def, of True 0]
  have av: "getAvailableMoves emptyBoard = [0, 1, 2, 3, 4, 5, 6, 7, 8]"
    by code_simp
  have g: "getBotMove seated 0 = Some 0"
    using acc by (simp add: getBotMove_def av Let_def)
  from acc g have m: "maybeBotMove seated (lit ''r'') 0 = (applyMove seated SymX (of_nat 0),
        [Broadcast (lit ''r'') (getState (applyMove seated SymX (of_nat 0)))], True)"
    and b0: "board (applyMove seated SymX (of_nat 0)) = emptyBoard[0 := Some SymX]"
    and t0: "turn (applyMove seated SymX (of_nat 0)) = SymO"
    by auto
  have nh: "lit ''Bob'' \<noteq> [] \<and> \<not> hasHuman r4"
    using run(9) by simp
  from acc nh
  have "rooms (fst (joinHandler s4 ''b'' pb True 0)) (lit ''r'') = Some (fst (maybeBotMove seated (lit ''r'') 0))"
    and "socketData (fst (joinHandler s4 ''b'' pb True 0)) ''b'' =
           \<lparr>sd_roomId = Some (lit ''r''), sd_symbol = Some SymO, sd_name = Some (lit ''Bob'')\<rparr>"
    by blast+
  then have k5: "rooms s5 (lit ''r'') = Some (applyMove seated SymX (of_nat 0))"
    and d5: "sd_symbol (socketData s5 ''b'') = Some SymO"
    by (simp_all add: s5_def m)
  have fs: "mode (applyMove seated SymX (of_nat 0)) = BotMode"
    "botSymbol (applyMove seated SymX (of_nat 0)) = Some SymX"
    "isBot (players (applyMove seated SymX (of_nat 0)) SymX)"
    "players (applyMove seated SymX (of_nat 0)) SymO =
       Some \<lparr>player_id = ''b'', player_name = lit ''Bob'', player_isBot = False\<rparr>"
    using acc by (simp_all add: applyMove_fields other_def isBot_def)
  have "reachable s3 \<and> reachable s4
       \<and> joinHandler s3 ''b'' pb True 0 = (s3, rejectJoin ''b'' True ''Room is full.'')
       \<and> joinHandler s4 ''b'' pn True 0 = (s4, rejectJoin ''b'' True ''Name is required.'')
       \<and> sd_symbol (socketData s5 ''b'') = Some SymO
       \<and> board (the (rooms s5 (lit ''r''))) = emptyBoard[0 := Some SymX]
       \<and> turn (the (rooms s5 (lit ''r''))) = SymO
       \<and> mode (the (rooms s5 (lit ''r''))) = BotMode
       \<and> botSymbol (the (rooms s5 (lit ''r''))) = Some SymX
       \<and> isBot (players (the (rooms s5 (lit ''r''))) SymX)
       \<and> players (the (rooms s5 (lit ''r''))) SymO =
            Some \<lparr>player_id = ''b'', player_name = lit ''Bob'', player_isBot = False\<rparr>"
    using run(1,2) c3 cn d5 b0 t0 fs by (simp add: k5)
  then show ?thesis
    unfolding s5_def s4_def s3_def pa_def pb_def pn_def Let_def .
qed

section \<open>The reference evaluation (C2)\<close>

lemma minimax_evaluator:
  "(getWinner b = Some bs \<longrightarrow>
      minimax b cur bs (other bs) d = Some \<lparr>mm_score = 10 - d, mm_index = None\<rparr>)
   \<and> (getWinner b = Some (other bs) \<longrightarrow>
      minimax b cur bs (other bs) d = Some \<lparr>mm_score = d - 10, mm_index = None\<rparr>)
   \<and> (getWinner b = None \<and> everyFilled b \<longrightarrow>
      minimax b cur bs (other bs) d = Some \<lparr>mm_score = 0, mm_index = None\<rparr>)
   \<and> (getWinner b = None \<and> \<not> everyFilled b \<longrightarrow>
      (\<exists>i. i < length b \<and> b ! i = None
         \<and> minimax b cur bs (other bs) d =
             Some \<lparr>mm_score = childScore b cur bs (other bs) d i, mm_index = Some i\<rparr>
         \<and> (\<forall>j. j < length b \<and> b ! j = None \<longrightarrow>
               (if cur = bs
                then childScore b cur bs (other bs) d j \<le> childScore b cur bs (other bs) d i
                else childScore b cur bs (other bs) d i \<le> childScore b cur bs (other bs) d j)
               \<and> (childScore b cur bs (other bs) d j = childScore b cur bs (other bs) d i
                    \<longrightarrow> i \<le> j))))
   \<and> (\<forall>j. \<exists>r. minimax (b[j := Some cur]) (other cur) bs (other bs) (d + 1) = Some r
          \<and> mm_score r = childScore b cur bs (other bs) d j)
   \<and> (holdsLine b bs \<and> \<not> holdsLine b (other bs) \<longrightarrow> getWinner b = Some bs)
   \<and> (holdsLine b (other bs) \<and> \<not> holdsLine b bs \<longrightarrow> getWinner b = Some (other bs))
   \<and> (\<not> holdsLine b bs \<and> \<not> holdsLine b (other bs) \<longrightarrow> getWinner b = None)"
proof -
  have nxt: "(if cur = bs then other bs else bs) = other cur"
    using other_cases [of cur bs] by auto
  have t1: "getWinner b = Some bs \<longrightarrow>
      minimax b cur bs (other bs) d = Some \<lparr>mm_score = 10 - d, mm_index = None\<rparr>"
    by (simp add: minimax_terminal)
  have t2: "getWinner b = Some (other bs) \<longrightarrow>
      minimax b cur bs (other bs) d = Some \<lparr>mm_score = d - 10, mm_index = None\<rparr>"
    by (simp add: minimax_terminal)
  have t3: "getWinner b = None \<and> everyFilled b \<longrightarrow>
      minimax b cur bs (other bs) d = Some \<lparr>mm_score = 0, mm_index = None\<rparr>"
    by (simp add: minimax_terminal)
  have t4: "getWinner b = None \<and> \<not> everyFilled b \<longrightarrow>
      (\<exists>i. i < length b \<and> b ! i = None
         \<and> minimax b cur bs (other bs) d =
             Some \<lparr>mm_score = childScore b cur bs (other bs) d i, mm_index = Some i\<rparr>
         \<and> (\<forall>j. j < length b \<and> b ! j = None \<longrightarrow>
               (if cur = bs
                then childScore b cur bs (other bs) d j \<le> childScore b cur bs (other bs) d i
                else childScore b cur bs (other bs) d i \<le> childScore b cur bs (other bs) d j)
               \<and> (childScore b cur bs (other bs) d j = childScore b cur bs (other bs) d i
                    \<longrightarrow> i \<le> j)))"
  proof
    assume a: "getWinner b = None \<and> \<not> everyFilled b"
    then have "getWinner b \<noteq> Some bs" "getWinner b \<noteq> Some (other bs)" "\<not> everyFilled b"
      by simp_all
    from minimax_choice [OF this, of cur d] show "\<exists>i. i < length b \<and> b ! i = None
         \<and> minimax b cur bs (other bs) d =
             Some \<lparr>mm_score = childScore b cur bs (other bs) d i, mm_index = Some i\<rparr>
         \<and> (\<forall>j. j < length b \<and> b ! j = None \<longrightarrow>
               (if cur = bs
                then childScore b cur bs (other bs) d j \<le> childScore b cur bs (other bs) d i
                else childScore b cur bs (other bs) d i \<le> childScore b cur bs (other bs) d j)
               \<and> (childScore b cur bs (other bs) d j = childScore b cur bs (other bs) d i
                    \<longrightarrow> i \<le> j))"
      unfolding getAvailableMoves_iff Ball_def by (elim exE conjE, intro exI conjI) simp_all
  qed
  have t5: "\<forall>j. \<exists>r. minimax (b[j := Some cur]) (other cur) bs (other bs) (d + 1) = Some r
          \<and> mm_score r = childScore b cur bs (other bs) d j"
  proof
    fix j
    from minimax_total [of "b[j := Some cur]" "other cur" bs "other bs" "d + 1"]
    obtain r where "minimax (b[j := Some cur]) (other cur) bs (other bs) (d + 1) = Some r" by blast
    then show "\<exists>r. minimax (b[j := Some cur]) (other cur) bs (other bs) (d + 1) = Some r
          \<and> mm_score r = childScore b cur bs (other bs) d j"
      by (simp add: childScore_def nxt)
  qed
  have t6: "holdsLine b bs \<and> \<not> holdsLine b (other bs) \<longrightarrow> getWinner b = Some bs"
    by (simp add: getWinner_only_line)
  have t7: "holdsLine b (other bs) \<and> \<not> holdsLine b bs \<longrightarrow> getWinner b = Some (other bs)"
    using getWinner_only_line [of b "other bs"] by simp
  have t8: "\<not> holdsLine b bs \<and> \<not> holdsLine b (other bs) \<longrightarrow> getWinner b = None"
  proof (cases "getWinner b")
    case None
    then show ?thesis by simp
  next
    case (Some t)
    then have "holdsLine b t" by (rule getWinner_holdsLine)
    with other_cases [of t bs] show ?thesis by auto
  qed
  show ?thesis
    by (intro conjI) (rule t1 t2 t3 t4 t5 t6 t7 t8)+
qed

text \<open>
  The boards the search visits. \<open>getBotMove\<close> starts minimax at depth 0 with the bot
  symbol to move, on the board of a room that \<open>maybeBotMove\<close> found undecided; minimax
  calls itself one ply deeper, with the other symbol to move, on the board with one
  more cell written, and only from a board with no winner and an empty cell.
\<close>

inductive searched :: "cell list \<Rightarrow> sym \<Rightarrow> sym \<Rightarrow> int \<Rightarrow> cell list \<Rightarrow> bool" for b0 bs where
  at_root: "getWinner b0 = None \<Longrightarrow> searched b0 bs bs 0 b0"
| deeper: "searched b0 bs cur d b \<Longrightarrow> getWinner b = None \<Longrightarrow> \<not> everyFilled b
    \<Longrightarrow> i \<in> set (getAvailableMoves b) \<Longrightarrow> searched b0 bs (other cur) (d + 1) (b[i := Some cur])"

lemma cellAt_update:
  "cellAt (b[i := v]) x = (if x = i \<and> i < length b then v else cellAt b x)"
  by (auto simp: cellAt_def)

lemma holdsLine_before:
  assumes "holdsLine (b[i := Some c]) t" and "t \<noteq> c"
  shows "holdsLine b t"
proof -
  from assms(1) obtain x y z where l: "(x, y, z) \<in> set winLines"
    and c: "cellAt (b[i := Some c]) x = Some t" "cellAt (b[i := Some c]) y = Some t"
      "cellAt (b[i := Some c]) z = Some t"
    by (auto simp: holdsLine_def list_ex_iff)
  have k: "cellAt b w = Some t" if "cellAt (b[i := Some c]) w = Some t" for w
    using that assms(2) by (auto simp: cellAt_update split: if_splits)
  from k [OF c(1)] k [OF c(2)] k [OF c(3)]
  have "case (x, y, z) of (x, y, z) \<Rightarrow> cellAt b x = Some t \<and> cellAt b y = Some t \<and> cellAt b z = Some t"
    by simp
  with l show ?thesis
    unfolding holdsLine_def list_ex_iff by (rule bexI [rotated])
qed

lemma searched_one_sided:
  assumes "searched b0 bs cur d b"
  shows "\<not> (holdsLine b bs \<and> holdsLine b (other bs))"
  using assms
proof (induction rule: searched.induct)
  case at_root
  then show ?case by (simp add: getWinner_holdsLine)
next
  case (deeper cur d b i)
  from deeper.hyps(2) have none: "\<not> holdsLine b t" for t
    by (rule getWinner_holdsLine)
  have "\<not> holdsLine (b[i := Some cur]) (other cur)"
    using holdsLine_before [of b i cur "other cur"] none by auto
  with other_cases [of cur bs] show ?case by auto
qed

lemma searched_depth:
  assumes "searched b0 bs cur d b"
  shows "int (emptyCount b) + d = int (emptyCount b0)" and "length b = length b0"
    and "cur = (if even d then bs else other bs)" and "0 \<le> d"
  using assms
proof (induction rule: searched.induct)
  case at_root
  {
    case 1 show ?case by simp
  next
    case 2 show ?case by simp
  next
    case 3 show ?case by simp
  next
    case 4 show ?case by simp
  }
next
  case (deeper cur d b i)
  from deeper.hyps(4) have i: "i < length b" "b ! i = None"
    by (simp_all add: getAvailableMoves_iff)
  have e: "emptyCount b = Suc (emptyCount (b[i := Some cur]))"
    using i
  proof (induction b arbitrary: i)
    case Nil
    then show ?case by simp
  next
    case (Cons c cs)
    then show ?case by (cases i) (simp_all add: emptyCount_def)
  qed
  {
    case 1
    from deeper.IH(1) e show ?case by simp
  next
    case 2
    from deeper.IH(2) show ?case by simp
  next
    case 3
    from deeper.IH(3,4) show ?case by (simp add: even_add)
  next
    case 4
    from deeper.IH(4) show ?case by simp
  }
qed


text \<open>Every board on which the bot step of an execution starts the search is such a root.\<close>

lemma bot_call_searched:
  assumes "roomState r" and "maybeBotMove r rid rnd = (r2, evs, True)"
  shows "\<exists>bs. botSymbol r = Some bs \<and> turn r = bs \<and> searched (board r) bs bs 0 (board r)"
proof -
  from maybeBotMove_cases [of r rid rnd] assms(2)
  have b: "botSymbol r = Some (turn r)" and w: "winner r = None" by auto
  from roomState_Mid [OF assms(1)] w have "getWinner (board r) = None"
    by (simp add: roomMid_def roomBase_def)
  then have "searched (board r) (turn r) (turn r) 0 (board r)" by (rule at_root)
  with b show ?thesis by simp
qed

text \<open>
  C2. On every board \<open>b\<close> that the search visits (at depth \<open>d\<close>, with \<open>cur\<close> to move, for
  the bot symbol \<open>bs\<close> and the other symbol as the human's), minimax computes the
  reference evaluation: \<open>10 - d\<close> when the bot symbol occupies a win-line, \<open>d - 10\<close>
  when the other symbol does, \<open>0\<close> when neither does and the board is full. Otherwise
  it returns an empty cell \<open>i\<close> with the score of the board one ply deeper below the
  move to \<open>i\<close>; every empty cell \<open>j\<close> leads to a board the search visits at depth
  \<open>d + 1\<close> with the other symbol to move, whose score is the child score of \<open>j\<close>; the
  score returned is the greatest child score when the bot symbol is to move and the
  least when the other symbol is; and among the empty cells with that score \<open>i\<close> is
  the lowest index. The depth is the number of plies from the board the search
  started on, and the bot symbol moves at the even depths.
\<close>

theorem minimax_reference:
  assumes "searched b0 bs cur d b"
  shows "(holdsLine b bs \<longrightarrow>
      minimax b cur bs (other bs) d = Some \<lparr>mm_score = 10 - d, mm_index = None\<rparr>)
   \<and> (holdsLine b (other bs) \<longrightarrow>
      minimax b cur bs (other bs) d = Some \<lparr>mm_score = d - 10, mm_index = None\<rparr>)
   \<and> (\<not> holdsLine b bs \<and> \<not> holdsLine b (other bs) \<and> everyFilled b \<longrightarrow>
      minimax b cur bs (other bs) d = Some \<lparr>mm_score = 0, mm_index = None\<rparr>)
   \<and> (\<not> holdsLine b bs \<and> \<not> holdsLine b (other bs) \<and> \<not> everyFilled b \<longrightarrow>
      (\<exists>i. i < length b \<and> b ! i = None
         \<and> minimax b cur bs (other bs) d =
             Some \<lparr>mm_score = childScore b cur bs (other bs) d i, mm_index = Some i\<rparr>
         \<and> (\<forall>j. j < length b \<and> b ! j = None \<longrightarrow>
               searched b0 bs (other cur) (d + 1) (b[j := Some cur])
               \<and> (\<exists>r. minimax (b[j := Some cur]) (other cur) bs (other bs) (d + 1) = Some r
                      \<and> mm_score r = childScore b cur bs (other bs) d j)
               \<and> (if cur = bs
                   then childScore b cur bs (other bs) d j \<le> childScore b cur bs (other bs) d i
                   else childScore b cur bs (other bs) d i \<le> childScore b cur bs (other bs) d j)
               \<and> (childScore b cur bs (other bs) d j = childScore b cur bs (other bs) d i
                    \<longrightarrow> i \<le> j))))
   \<and> d = int (emptyCount b0) - int (emptyCount b)
   \<and> cur = (if even d then bs else other bs)"
proof -
  note ev = minimax_evaluator [of b bs cur d]
  from searched_one_sided [OF assms] have os: "\<not> (holdsLine b bs \<and> holdsLine b (other bs))" .
  have w1: "getWinner b = Some bs" if "holdsLine b bs"
    using that os ev by blast
  have w2: "getWinner b = Some (other bs)" if "holdsLine b (other bs)"
    using that os ev by blast
  have w3: "getWinner b = None" if "\<not> holdsLine b bs" "\<not> holdsLine b (other bs)"
    using that ev by blast
  have a: "holdsLine b bs \<longrightarrow>
      minimax b cur bs (other bs) d = Some \<lparr>mm_score = 10 - d, mm_index = None\<rparr>"
    using w1 by (auto simp: minimax_terminal)
  have b: "holdsLine b (other bs) \<longrightarrow>
      minimax b cur bs (other bs) d = Some \<lparr>mm_score = d - 10, mm_index = None\<rparr>"
    using w2 by (auto simp: minimax_terminal)
  have c: "\<not> holdsLine b bs \<and> \<not> holdsLine b (other bs) \<and> everyFilled b \<longrightarrow>
      minimax b cur bs (other bs) d = Some \<lparr>mm_score = 0, mm_index = None\<rparr>"
    using w3 by (auto simp: minimax_terminal)
  have e: "\<exists>i. i < length b \<and> b ! i = None
         \<and> minimax b cur bs (other bs) d =
             Some \<lparr>mm_score = childScore b cur bs (other bs) d i, mm_index = Some i\<rparr>
         \<and> (\<forall>j. j < length b \<and> b ! j = None \<longrightarrow>
               searched b0 bs (other cur) (d + 1) (b[j := Some cur])
               \<and> (\<exists>r. minimax (b[j := Some cur]) (other cur) bs (other bs) (d + 1) = Some r
                      \<and> mm_score r = childScore b cur bs (other bs) d j)
               \<and> (if cur = bs
                   then childScore b cur bs (other bs) d j \<le> childScore b cur bs (other bs) d i
                   else childScore b cur bs (other bs) d i \<le> childScore b cur bs (other bs) d j)
               \<and> (childScore b cur bs (other bs) d j = childScore b cur bs (other bs) d i
                    \<longrightarrow> i \<le> j))"
    if h: "\<not> holdsLine b bs" "\<not> holdsLine b (other bs)" "\<not> everyFilled b"
  proof -
    from w3 [OF h(1,2)] have gw: "getWinner b = None" .
    from ev gw h(3) obtain i where i: "i < length b" "b ! i = None"
      "minimax b cur bs (other bs) d =
             Some \<lparr>mm_score = childScore b cur bs (other bs) d i, mm_index = Some i\<rparr>"
      and best: "\<forall>j. j < length b \<and> b ! j = None \<longrightarrow>
               (if cur = bs
                then childScore b cur bs (other bs) d j \<le> childScore b cur bs (other bs) d i
                else childScore b cur bs (other bs) d i \<le> childScore b cur bs (other bs) d j)
               \<and> (childScore b cur bs (other bs) d j = childScore b cur bs (other bs) d i
                    \<longrightarrow> i \<le> j)"
      by blast
    from ev have ch: "\<exists>r. minimax (b[j := Some cur]) (other cur) bs (other bs) (d + 1) = Some r
          \<and> mm_score r = childScore b cur bs (other bs) d j" for j
      by blast
    have se: "searched b0 bs (other cur) (d + 1) (b[j := Some cur])" if "j < length b" "b ! j = None" for j
      using assms gw h(3) by (rule deeper) (simp add: getAvailableMoves_iff that)
    from i best ch se show ?thesis by blast
  qed
  from searched_depth [OF assms]
  have f: "d = int (emptyCount b0) - int (emptyCount b)" and g: "cur = (if even d then bs else other bs)"
    by simp_all
  from e have e': "\<not> holdsLine b bs \<and> \<not> holdsLine b (other bs) \<and> \<not> everyFilled b \<longrightarrow>
      (\<exists>i. i < length b \<and> b ! i = None
         \<and> minimax b cur bs (other bs) d =
             Some \<lparr>mm_score = childScore b cur bs (other bs) d i, mm_index = Some i\<rparr>
         \<and> (\<forall>j. j < length b \<and> b ! j = None \<longrightarrow>
               searched b0 bs (other cur) (d + 1) (b[j := Some cur])
               \<and> (\<exists>r. minimax (b[j := Some cur]) (other cur) bs (other bs) (d + 1) = Some r
                      \<and> mm_score r = childScore b cur bs (other bs) d j)
               \<and> (if cur = bs
                   then childScore b cur bs (other bs) d j \<le> childScore b cur bs (other bs) d i
                   else childScore b cur bs (other bs) d i \<le> childScore b cur bs (other bs) d j)
               \<and> (childScore b cur bs (other bs) d j = childScore b cur bs (other bs) d i
                    \<longrightarrow> i \<le> j)))"
    by blast
  show ?thesis
    by (rule conjI [OF a conjI [OF b conjI [OF c conjI [OF e' conjI [OF f g]]]]])
qed


theorem minimax_reference_witness:
  "(let tie = [Some SymX, Some SymX, None, Some SymX, Some SymO, Some SymO, None, Some SymO, None];
        rt = [Some SymX, Some SymO, Some SymX, Some SymO, Some SymO, Some SymX, None, None, None];
        low = rt[6 := Some SymX]
    in searched tie SymX SymX 0 tie
       \<and> minimax tie SymX SymX SymO 0 = Some \<lparr>mm_score = 9, mm_index = Some 2\<rparr>
       \<and> childScore tie SymX SymX SymO 0 2 = 9 \<and> childScore tie SymX SymX SymO 0 6 = 9
       \<and> childScore tie SymX SymX SymO 0 8 = 7
       \<and> searched rt SymX SymO 1 low
       \<and> minimax low SymO SymX SymO 1 = Some \<lparr>mm_score = - 8, mm_index = Some 7\<rparr>
       \<and> childScore low SymO SymX SymO 1 7 = - 8 \<and> childScore low SymO SymX SymO 1 8 = 0
       \<and> searched rt SymX SymX 2 (low[7 := Some SymO]) \<and> holdsLine (low[7 := Some SymO]) SymO
       \<and> minimax (low[7 := Some SymO]) SymX SymX SymO 2 = Some \<lparr>mm_score = - 8, mm_index = None\<rparr>
       \<and> searched tie SymX SymO 1 (tie[2 := Some SymX]) \<and> holdsLine (tie[2 := Some SymX]) SymX
       \<and> minimax (tie[2 := Some SymX]) SymO SymX SymO 1 = Some \<lparr>mm_score = 9, mm_index = None\<rparr>
       \<and> searched rt SymX SymO 3 (low[8 := Some SymO, 7 := Some SymX])
       \<and> everyFilled (low[8 := Some SymO, 7 := Some SymX])
       \<and> minimax (low[8 := Some SymO, 7 := Some SymX]) SymO SymX SymO 3 =
            Some \<lparr>mm_score = 0, mm_index = None\<rparr>)"
proof -
  define tie where "tie = [Some SymX, Some SymX, None, Some SymX, Some SymO, Some SymO, None, Some SymO, None]"
  define rt where "rt = [Some SymX, Some SymO, Some SymX, Some SymO, Some SymO, Some SymX, None, None, None]"
  define low where "low = rt[6 := Some SymX]"
  have o: "other SymX = SymO" "other SymO = SymX" by (simp_all add: other_def)
  have g: "getWinner tie = None" "\<not> everyFilled tie" "getWinner rt = None" "\<not> everyFilled rt"
    "getWinner low = None" "\<not> everyFilled low"
    "getWinner (low[8 := Some SymO]) = None" "\<not> everyFilled (low[8 := Some SymO])"
    unfolding low_def rt_def tie_def by code_simp+
  have av: "getAvailableMoves tie = [2, 6, 8]" "getAvailableMoves rt = [6, 7, 8]"
    "getAvailableMoves low = [7, 8]" "getAvailableMoves (low[8 := Some SymO]) = [7]"
    unfolding low_def rt_def tie_def by code_simp+
  have hl: "holdsLine (low[7 := Some SymO]) SymO" "holdsLine (tie[2 := Some SymX]) SymX"
    "\<not> holdsLine tie SymX" "\<not> holdsLine tie SymO" "\<not> holdsLine low SymX" "\<not> holdsLine low SymO"
    "\<not> holdsLine (low[8 := Some SymO, 7 := Some SymX]) SymX"
    "\<not> holdsLine (low[8 := Some SymO, 7 := Some SymX]) SymO"
    "everyFilled (low[8 := Some SymO, 7 := Some SymX])"
    unfolding low_def rt_def tie_def by code_simp+
  have cs: "childScore tie SymX SymX SymO 0 2 = 9" "childScore tie SymX SymX SymO 0 6 = 9"
    "childScore tie SymX SymX SymO 0 8 = 7"
    "childScore low SymO SymX SymO 1 7 = - 8" "childScore low SymO SymX SymO 1 8 = 0"
    unfolding low_def rt_def tie_def by code_simp+
  have s0: "searched tie SymX SymX 0 tie" by (rule at_root [OF g(1)])
  have s1: "searched tie SymX SymO 1 (tie[2 := Some SymX])"
    using deeper [OF s0 g(1,2), of 2] by (simp add: av o)
  have r0: "searched rt SymX SymX 0 rt" by (rule at_root [OF g(3)])
  have r1: "searched rt SymX SymO 1 low"
    using deeper [OF r0 g(3,4), of 6] by (simp add: av o low_def)
  have r2: "searched rt SymX SymX 2 (low[7 := Some SymO])"
    using deeper [OF r1 g(5,6), of 7] by (simp add: av o)
  have r2': "searched rt SymX SymX 2 (low[8 := Some SymO])"
    using deeper [OF r1 g(5,6), of 8] by (simp add: av o)
  have r3: "searched rt SymX SymO 3 (low[8 := Some SymO, 7 := Some SymX])"
    using deeper [OF r2' g(7,8), of 7] by (simp add: av o)
  note t0 = minimax_reference [OF s0, unfolded o]
  from t0 hl(3,4) g(2) obtain i where i: "i < length tie" "tie ! i = None"
    "minimax tie SymX SymX SymO 0 = Some \<lparr>mm_score = childScore tie SymX SymX SymO 0 i, mm_index = Some i\<rparr>"
    and bi: "\<forall>j. j < length tie \<and> tie ! j = None \<longrightarrow>
        childScore tie SymX SymX SymO 0 j \<le> childScore tie SymX SymX SymO 0 i
        \<and> (childScore tie SymX SymX SymO 0 j = childScore tie SymX SymX SymO 0 i \<longrightarrow> i \<le> j)"
    by auto
  from i(1,2) have "i \<in> set (getAvailableMoves tie)" by (simp only: getAvailableMoves_iff)
  then have "i = 2 \<or> i = 6 \<or> i = 8" by (simp add: av)
  moreover have "2 < length tie \<and> tie ! 2 = None" by (simp add: tie_def)
  with bi have "childScore tie SymX SymX SymO 0 2 \<le> childScore tie SymX SymX SymO 0 i
        \<and> (childScore tie SymX SymX SymO 0 2 = childScore tie SymX SymX SymO 0 i \<longrightarrow> i \<le> 2)"
    by blast
  ultimately have i2: "i = 2" using cs by auto
  have m0: "minimax tie SymX SymX SymO 0 = Some \<lparr>mm_score = 9, mm_index = Some 2\<rparr>"
    using i(3) by (simp add: i2 cs)
  note t1 = minimax_reference [OF r1, unfolded o]
  from t1 hl(5,6) g(6) obtain k where k: "k < length low" "low ! k = None"
    "minimax low SymO SymX SymO 1 = Some \<lparr>mm_score = childScore low SymO SymX SymO 1 k, mm_index = Some k\<rparr>"
    and bk: "\<forall>j. j < length low \<and> low ! j = None \<longrightarrow>
        childScore low SymO SymX SymO 1 k \<le> childScore low SymO SymX SymO 1 j"
    by auto
  from k(1,2) have "k \<in> set (getAvailableMoves low)" by (simp only: getAvailableMoves_iff)
  then have "k = 7 \<or> k = 8" by (simp add: av)
  moreover have "7 < length low \<and> low ! 7 = None" by (simp add: low_def rt_def)
  with bk have "childScore low SymO SymX SymO 1 k \<le> childScore low SymO SymX SymO 1 7" by blast
  ultimately have k7: "k = 7" using cs by auto
  have m1: "minimax low SymO SymX SymO 1 = Some \<lparr>mm_score = - 8, mm_index = Some 7\<rparr>"
    using k(3) by (simp add: k7 cs)
  from minimax_reference [OF r2, unfolded o] hl(1)
  have m2: "minimax (low[7 := Some SymO]) SymX SymX SymO 2 = Some \<lparr>mm_score = - 8, mm_index = None\<rparr>"
    by simp
  from minimax_reference [OF s1, unfolded o] hl(2)
  have m3: "minimax (tie[2 := Some SymX]) SymO SymX SymO 1 = Some \<lparr>mm_score = 9, mm_index = None\<rparr>"
    by simp
  from minimax_reference [OF r3, unfolded o] hl(7,8,9)
  have m4: "minimax (low[8 := Some SymO, 7 := Some SymX]) SymO SymX SymO 3 =
            Some \<lparr>mm_score = 0, mm_index = None\<rparr>"
    by simp
  have "searched tie SymX SymX 0 tie
       \<and> minimax tie SymX SymX SymO 0 = Some \<lparr>mm_score = 9, mm_index = Some 2\<rparr>
       \<and> childScore tie SymX SymX SymO 0 2 = 9 \<and> childScore tie SymX SymX SymO 0 6 = 9
       \<and> childScore tie SymX SymX SymO 0 8 = 7
       \<and> searched rt SymX SymO 1 low
       \<and> minimax low SymO SymX SymO 1 = Some \<lparr>mm_score = - 8, mm_index = Some 7\<rparr>
       \<and> childScore low SymO SymX SymO 1 7 = - 8 \<and> childScore low SymO SymX SymO 1 8 = 0
       \<and> searched rt SymX SymX 2 (low[7 := Some SymO]) \<and> holdsLine (low[7 := Some SymO]) SymO
       \<and> minimax (low[7 := Some SymO]) SymX SymX SymO 2 = Some \<lparr>mm_score = - 8, mm_index = None\<rparr>
       \<and> searched tie SymX SymO 1 (tie[2 := Some SymX]) \<and> holdsLine (tie[2 := Some SymX]) SymX
       \<and> minimax (tie[2 := Some SymX]) SymO SymX SymO 1 = Some \<lparr>mm_score = 9, mm_index = None\<rparr>
       \<and> searched rt SymX SymO 3 (low[8 := Some SymO, 7 := Some SymX])
       \<and> everyFilled (low[8 := Some SymO, 7 := Some SymX])
       \<and> minimax (low[8 := Some SymO, 7 := Some SymX]) SymO SymX SymO 3 =
            Some \<lparr>mm_score = 0, mm_index = None\<rparr>"
    using s0 m0 cs r1 m1 r2 hl(1) m2 s1 hl(2) m3 r3 hl(9) m4 by simp
  then show ?thesis
    unfolding low_def rt_def tie_def Let_def .
qed

end
